theory Spec2Isabelle
  imports Complex_Main "HOL-Library.Sublist"
begin

section \<open>The model router of \<^verbatim>\<open>src/router.py\<close>\<close>

subsection \<open>Python's numbers\<close>

text \<open>
  A finite Python float is an IEEE 754 double: zero, or \<open>\<plusminus> m * 2 ^ e\<close> with a whole \<open>m\<close>
  below \<open>2 ^ 53\<close> and \<open>e\<close> from -1074 to 971. Arithmetic on floats, the conversion of an int
  to a float and the true division of two ints all return the double nearest to the exact
  result, the one with the even \<open>m\<close> when two are equally near. The functions below compute
  that double from the exact result.

  \<open>ilog2 x\<close> is the \<open>k\<close> with \<open>2 ^ k \<le> x < 2 ^ (k + 1)\<close> for a positive \<open>x\<close>, found by halving
  or doubling.
\<close>

function log2_ge1 :: "rat \<Rightarrow> nat" where
  "log2_ge1 x = (if x < 2 then 0 else Suc (log2_ge1 (x / 2)))"
  by pat_completeness auto
termination
proof (relation "measure (\<lambda>x. nat \<lfloor>x\<rfloor>)")
  show "wf (measure (\<lambda>x::rat. nat \<lfloor>x\<rfloor>))"
    by simp
next
  fix x :: rat
  assume "\<not> x < 2"
  then have "2 \<le> \<lfloor>x\<rfloor>"
    by (simp add: le_floor_iff)
  then have "(2::rat) \<le> of_int \<lfloor>x\<rfloor>"
    by linarith
  moreover have "x < of_int \<lfloor>x\<rfloor> + 1"
    by linarith
  ultimately have "x / 2 < of_int \<lfloor>x\<rfloor>"
    by linarith
  then have "\<lfloor>x / 2\<rfloor> < \<lfloor>x\<rfloor>"
    by (simp add: floor_less_iff)
  with \<open>2 \<le> \<lfloor>x\<rfloor>\<close> show "(x / 2, x) \<in> measure (\<lambda>x. nat \<lfloor>x\<rfloor>)"
    by simp
qed

declare log2_ge1.simps [simp del]

function log2_lt1 :: "rat \<Rightarrow> nat" where
  "log2_lt1 x = (if x \<le> 0 \<or> 1 \<le> x then 0 else Suc (log2_lt1 (2 * x)))"
  by pat_completeness auto
termination
proof (relation "measure (\<lambda>x. nat \<lceil>1 / x\<rceil>)")
  show "wf (measure (\<lambda>x::rat. nat \<lceil>1 / x\<rceil>))"
    by simp
next
  fix x :: rat
  assume "\<not> (x \<le> 0 \<or> 1 \<le> x)"
  then have pos: "0 < x" and small: "x < 1"
    by simp_all
  then have "1 < 1 / x"
    by simp
  then have two: "2 \<le> \<lceil>1 / x\<rceil>"
    by linarith
  then have "(2::rat) \<le> of_int \<lceil>1 / x\<rceil>"
    by linarith
  moreover have "1 / x \<le> of_int \<lceil>1 / x\<rceil>"
    by linarith
  moreover have "1 / (2 * x) = (1 / x) / 2"
    by simp
  ultimately have "1 / (2 * x) \<le> of_int \<lceil>1 / x\<rceil> - 1"
    by linarith
  then have "\<lceil>1 / (2 * x)\<rceil> \<le> \<lceil>1 / x\<rceil> - 1"
    by (metis ceiling_le of_int_1 of_int_diff)
  with two have "nat \<lceil>1 / (2 * x)\<rceil> < nat \<lceil>1 / x\<rceil>"
    by linarith
  then show "(2 * x, x) \<in> measure (\<lambda>x. nat \<lceil>1 / x\<rceil>)"
    by (simp only: in_measure)
qed

declare log2_lt1.simps [simp del]

definition ilog2 :: "rat \<Rightarrow> int" where
  "ilog2 x = (if 1 \<le> x then int (log2_ge1 x) else - int (log2_lt1 x))"

text \<open>Rounding to the nearest whole number, to the even one of two equally near.\<close>

definition round_even :: "rat \<Rightarrow> int" where
  "round_even r =
     (let f = \<lfloor>r\<rfloor>; d = r - of_int f
      in if d < 1 / 2 then f else if 1 / 2 < d then f + 1 else if even f then f else f + 1)"

text \<open>
  The doubles around a positive \<open>x\<close> are the multiples of \<open>2 ^ ulp_exponent x\<close>, which leaves
  53 bits for \<open>m\<close> and stops at the exponent of the subnormal numbers; \<open>nearest x\<close> is the
  multiple nearest to \<open>x\<close>.
\<close>

definition ulp_exponent :: "rat \<Rightarrow> int" where
  "ulp_exponent x = max (ilog2 \<bar>x\<bar> - 52) (- 1074)"

definition nearest :: "rat \<Rightarrow> rat" where
  "nearest x = of_int (round_even (x / 2 powi ulp_exponent x)) * 2 powi ulp_exponent x"

text \<open>
  A Python float: a double, held by its exact value, \<^verbatim>\<open>inf\<close> (\<open>Infinity True\<close>), \<^verbatim>\<open>-inf\<close>
  (\<open>Infinity False\<close>) or \<^verbatim>\<open>nan\<close>. The sign of a zero is not kept: \<^verbatim>\<open>-0.0 == 0.0\<close> in Python,
  and none of the operations below tells the two apart.
\<close>

datatype pyfloat = Double rat | Infinity bool | NaN

text \<open>The float for an exact result: the nearest double, or an infinity when the nearest
  multiple is \<open>2 ^ 1024\<close> or more.\<close>

definition fl :: "rat \<Rightarrow> pyfloat" where
  "fl x =
     (if x = 0 then Double 0
      else
        (let v = nearest \<bar>x\<bar>
         in if 2 ^ 1024 \<le> v then Infinity (0 < x)
            else Double (if 0 < x then v else - v)))"

text \<open>The exact values that a double can have are those that rounding leaves alone.\<close>

definition is_double :: "rat \<Rightarrow> bool" where
  "is_double x = (fl x = Double x)"

text \<open>A float that is at least, or at most, a given exact value.\<close>

fun float_ge :: "pyfloat \<Rightarrow> rat \<Rightarrow> bool" where
  "float_ge (Double v) a = (a \<le> v)"
| "float_ge (Infinity s) a = s"
| "float_ge NaN a = False"

fun float_le :: "pyfloat \<Rightarrow> rat \<Rightarrow> bool" where
  "float_le (Double v) a = (v \<le> a)"
| "float_le (Infinity s) a = (\<not> s)"
| "float_le NaN a = False"

text \<open>
  \<^verbatim>\<open>x + y\<close>, \<^verbatim>\<open>-y\<close>, \<^verbatim>\<open>x - y\<close> and \<^verbatim>\<open>x * y\<close> on floats. None of them raises: a result that
  leaves the doubles is an infinity, and an undefined one (\<^verbatim>\<open>inf - inf\<close>, \<^verbatim>\<open>inf * 0.0\<close>) is
  \<^verbatim>\<open>nan\<close>.
\<close>

fun float_add :: "pyfloat \<Rightarrow> pyfloat \<Rightarrow> pyfloat" where
  "float_add NaN y = NaN"
| "float_add x NaN = NaN"
| "float_add (Infinity s) (Infinity t) = (if s = t then Infinity s else NaN)"
| "float_add (Infinity s) (Double y) = Infinity s"
| "float_add (Double x) (Infinity t) = Infinity t"
| "float_add (Double x) (Double y) = fl (x + y)"

fun float_neg :: "pyfloat \<Rightarrow> pyfloat" where
  "float_neg (Double x) = Double (- x)"
| "float_neg (Infinity s) = Infinity (\<not> s)"
| "float_neg NaN = NaN"

definition float_sub :: "pyfloat \<Rightarrow> pyfloat \<Rightarrow> pyfloat" where
  "float_sub x y = float_add x (float_neg y)"

fun float_mul :: "pyfloat \<Rightarrow> pyfloat \<Rightarrow> pyfloat" where
  "float_mul NaN y = NaN"
| "float_mul x NaN = NaN"
| "float_mul (Infinity s) (Infinity t) = Infinity (s = t)"
| "float_mul (Infinity s) (Double y) = (if y = 0 then NaN else Infinity (s = (0 < y)))"
| "float_mul (Double x) (Infinity t) = (if x = 0 then NaN else Infinity (t = (0 < x)))"
| "float_mul (Double x) (Double y) = fl (x * y)"

text \<open>
  A Python number is an int, of any size, or a float. Arithmetic on two ints is exact.
  With a float on either side, an int operand is first converted to a float, which
  rounds it and raises \<^verbatim>\<open>OverflowError\<close> when it is too large for a double; then the
  operation is the one on floats.
\<close>

datatype number = PyInt int | PyFloat pyfloat

datatype error = OverflowError | ZeroDivisionError

definition to_float :: "number \<Rightarrow> error + pyfloat" where
  "to_float n =
     (case n of
        PyInt i \<Rightarrow> (case fl (of_int i) of Double v \<Rightarrow> Inr (Double v) | _ \<Rightarrow> Inl OverflowError)
      | PyFloat x \<Rightarrow> Inr x)"

definition as_floats ::
    "(pyfloat \<Rightarrow> pyfloat \<Rightarrow> pyfloat) \<Rightarrow> number \<Rightarrow> number \<Rightarrow> error + number" where
  "as_floats operation a b =
     (case to_float a of
        Inl e \<Rightarrow> Inl e
      | Inr x \<Rightarrow> (case to_float b of Inl e \<Rightarrow> Inl e | Inr y \<Rightarrow> Inr (PyFloat (operation x y))))"

definition py_add :: "number \<Rightarrow> number \<Rightarrow> error + number" where
  "py_add a b =
     (case (a, b) of
        (PyInt i, PyInt j) \<Rightarrow> Inr (PyInt (i + j))
      | _ \<Rightarrow> as_floats float_add a b)"

definition py_sub :: "number \<Rightarrow> number \<Rightarrow> error + number" where
  "py_sub a b =
     (case (a, b) of
        (PyInt i, PyInt j) \<Rightarrow> Inr (PyInt (i - j))
      | _ \<Rightarrow> as_floats float_sub a b)"

definition py_mul :: "number \<Rightarrow> number \<Rightarrow> error + number" where
  "py_mul a b =
     (case (a, b) of
        (PyInt i, PyInt j) \<Rightarrow> Inr (PyInt (i * j))
      | _ \<Rightarrow> as_floats float_mul a b)"

text \<open>\<^verbatim>\<open>a / b\<close> on two ints: the float nearest to the exact quotient, \<^verbatim>\<open>OverflowError\<close> when
  that is no double.\<close>

definition int_true_divide :: "int \<Rightarrow> int \<Rightarrow> error + number" where
  "int_true_divide a b =
     (if b = 0 then Inl ZeroDivisionError
      else
        (case fl (of_int a / of_int b) of
           Double v \<Rightarrow> Inr (PyFloat (Double v))
         | _ \<Rightarrow> Inl OverflowError))"

text \<open>
  \<^verbatim>\<open>a >= b\<close>: Python compares an int and a float by their exact values; every comparison
  with \<^verbatim>\<open>nan\<close> is false. \<^verbatim>\<open>a < b\<close> is its negation except with \<^verbatim>\<open>nan\<close>.
\<close>

fun py_ge :: "number \<Rightarrow> number \<Rightarrow> bool" where
  "py_ge (PyFloat NaN) b = False"
| "py_ge a (PyFloat NaN) = False"
| "py_ge (PyFloat (Infinity s)) (PyFloat (Infinity t)) = (s \<or> \<not> t)"
| "py_ge (PyFloat (Infinity s)) b = s"
| "py_ge a (PyFloat (Infinity t)) = (\<not> t)"
| "py_ge (PyInt i) (PyInt j) = (j \<le> i)"
| "py_ge (PyInt i) (PyFloat (Double y)) = (y \<le> of_int i)"
| "py_ge (PyFloat (Double x)) (PyInt j) = (of_int j \<le> x)"
| "py_ge (PyFloat (Double x)) (PyFloat (Double y)) = (y \<le> x)"

definition py_lt :: "number \<Rightarrow> number \<Rightarrow> bool" where
  "py_lt a b = (a \<noteq> PyFloat NaN \<and> b \<noteq> PyFloat NaN \<and> \<not> py_ge a b)"

text \<open>The numbers that Python can hold: the exact value of a finite float is a double.\<close>

definition valid_number :: "number \<Rightarrow> bool" where
  "valid_number n = (case n of PyFloat (Double x) \<Rightarrow> is_double x | _ \<Rightarrow> True)"

subsection \<open>Data model\<close>

text \<open>
  The dataclasses \<^verbatim>\<open>Model\<close> and \<^verbatim>\<open>Task\<close> (lines 22-40), field by field. The field
  \<^verbatim>\<open>type\<close> of a model is a list of task-type strings.
\<close>

record Model =
  name :: string
  type :: "string list"
  cost_per_1m_tokens :: int
  max_context :: int
  priority :: int
  capabilities :: "string list"

record Task =
  description :: string
  task_type :: string
  complexity :: string
  task_priority :: string
  require_fallback :: bool

text \<open>Python values that a rule or a decision holds: a string, a number, \<^verbatim>\<open>None\<close>.\<close>

datatype pyval = VStr string | VNumber number | VNone

text \<open>
  A routing rule is a dictionary of the parsed configuration. Each key may be missing:
  a missing key is \<open>None\<close>, as \<^verbatim>\<open>dict.get\<close> returns it, and so is an explicit \<^verbatim>\<open>null\<close>. Only
  \<^verbatim>\<open>reasoning\<close> is read with a default, which replaces a missing key and not a \<^verbatim>\<open>null\<close>:
  there \<open>None\<close> is the missing key and \<open>Some VNone\<close> the \<^verbatim>\<open>null\<close>. The dictionary under
  \<^verbatim>\<open>when\<close> has the keys \<^verbatim>\<open>task_type\<close> and \<^verbatim>\<open>complexity\<close>.
\<close>

record when_dict =
  when_task_type :: "string option"
  when_complexity :: "string option"

record rule =
  rule_when :: "when_dict option"
  rule_use :: "string option"
  rule_fallback :: "string option"
  rule_reasoning :: "pyval option"

text \<open>
  The state of a \<^verbatim>\<open>ModelRouter\<close> (lines 46-52). \<^verbatim>\<open>models\<close> is a Python dict, which
  iterates in insertion order: an association list, looked up with \<open>map_of\<close>.
  The budget fields are Python numbers: \<^verbatim>\<open>budget_spent_today\<close> starts as the int 0 and is
  a float after the first cost is added, \<^verbatim>\<open>daily_limit\<close> is the int or float of the
  configuration.
\<close>

record ModelRouter =
  config_path :: string
  models :: "(string \<times> Model) list"
  routing_rules :: "rule list"
  budget_spent_today :: number
  daily_limit :: number

text \<open>
  The dictionary that \<^verbatim>\<open>route_task\<close> returns, with its keys in the order of the dict
  literal.
\<close>

type_synonym decision = "(string \<times> pyval) list"

text \<open>A call returns its result, \<open>Inr\<close>, or raises, \<open>Inl\<close>. \<open>decision_get r key\<close> reads a key
  of the returned dictionary as \<^verbatim>\<open>dict.get\<close> does, \<open>None\<close> for a key that it does not
  have.\<close>

definition decision_get :: "error + decision \<Rightarrow> string \<Rightarrow> error + pyval option" where
  "decision_get r key = (case r of Inl e \<Rightarrow> Inl e | Inr d \<Rightarrow> Inr (map_of d key))"

subsection \<open>classify\_task (lines 88-120)\<close>

text \<open>
  \<^verbatim>\<open>str.lower\<close> on ASCII text: the letters \<^verbatim>\<open>A\<close> to \<^verbatim>\<open>Z\<close> move to \<^verbatim>\<open>a\<close> to \<^verbatim>\<open>z\<close>,
  every other character stays.
\<close>

definition lower_char :: "char \<Rightarrow> char" where
  "lower_char c =
     (let n = (of_char c :: nat) in if 65 \<le> n \<and> n \<le> 90 then char_of (n + 32) else c)"

definition lower :: "string \<Rightarrow> string" where
  "lower s = map lower_char s"

text \<open>
  \<^verbatim>\<open>any(word in desc for word in words)\<close>: \<^verbatim>\<open>in\<close> on two strings is the substring
  test, \<^const>\<open>sublist\<close>.
\<close>

definition any_word_in :: "string list \<Rightarrow> string \<Rightarrow> bool" where
  "any_word_in words desc = list_ex (\<lambda>word. sublist word desc) words"

definition classify_task :: "string \<Rightarrow> Task" where
  "classify_task task_description =
     (let desc = lower task_description;
          task_type =
            (if any_word_in [''write code'', ''create function'', ''implement''] desc
               then ''code_simple''
             else if any_word_in [''review code'', ''refactor'', ''audit''] desc
               then ''code_review''
             else if any_word_in [''debug'', ''fix error'', ''solve bug''] desc
               then ''debugging''
             else if any_word_in [''architecture'', ''design system'', ''scale''] desc
               then ''code_complex''
             else if any_word_in [''generate image'', ''create picture''] desc
               then ''image''
             else if any_word_in [''analyze data'', ''process data''] desc
               then ''data''
             else ''chat'');
          complexity =
            (if any_word_in [''simple'', ''basic'', ''easy''] desc then ''low''
             else if any_word_in [''complex'', ''advanced'', ''architecture''] desc then ''high''
             else ''medium'')
      in \<lparr>description = task_description, task_type = task_type, complexity = complexity,
          task_priority = ''normal'', require_fallback = True\<rparr>)"

subsection \<open>find\_cheapest\_model (lines 181-187)\<close>

text \<open>
  Python's \<^verbatim>\<open>min(iterable, key=..., default=None)\<close>: the default on an empty iterable;
  otherwise the first item is the candidate and a later item replaces it only when its
  key is strictly smaller, so the earliest of several minimal items is returned.
\<close>

fun min_loop :: "('a \<Rightarrow> int) \<Rightarrow> 'a \<Rightarrow> 'a list \<Rightarrow> 'a" where
  "min_loop key best [] = best"
| "min_loop key best (x # xs) = min_loop key (if key x < key best then x else best) xs"

definition py_min :: "('a \<Rightarrow> int) \<Rightarrow> 'a list \<Rightarrow> 'a option" where
  "py_min key xs = (case xs of [] \<Rightarrow> None | x # rest \<Rightarrow> Some (min_loop key x rest))"

definition find_cheapest_model :: "ModelRouter \<Rightarrow> Task \<Rightarrow> Model option" where
  "find_cheapest_model self task =
     (let capable = filter (\<lambda>m. task_type task \<in> set (type m)) (map snd (models self))
      in py_min cost_per_1m_tokens capable)"

text \<open>The list \<^verbatim>\<open>capable\<close> of lines 183-186 on its own: the registered models, in the
  registry's order, whose types contain the task's type.\<close>

definition capable_models :: "ModelRouter \<Rightarrow> Task \<Rightarrow> Model list" where
  "capable_models self task =
     filter (\<lambda>m. task_type task \<in> set (type m)) (map snd (models self))"

subsection \<open>route\_task (lines 122-179)\<close>

text \<open>Truthiness of the result of \<^verbatim>\<open>dict.get\<close> on a string-valued key: \<^verbatim>\<open>None\<close> and
  the empty string are false.\<close>

definition truthy :: "string option \<Rightarrow> bool" where
  "truthy v = (case v of None \<Rightarrow> False | Some s \<Rightarrow> s \<noteq> [])"

text \<open>\<^verbatim>\<open>self.models.get(key)\<close>, where the key itself comes from \<^verbatim>\<open>rule.get\<close> and may be
  \<^verbatim>\<open>None\<close>, which is no key of the registry.\<close>

definition models_get :: "ModelRouter \<Rightarrow> string option \<Rightarrow> Model option" where
  "models_get self key = (case key of None \<Rightarrow> None | Some k \<Rightarrow> map_of (models self) k)"

text \<open>\<^verbatim>\<open>rule.get('when', {})\<close>: the empty dictionary has neither key.\<close>

definition get_when :: "rule \<Rightarrow> when_dict" where
  "get_when rule =
     (case rule_when rule of
        None \<Rightarrow> \<lparr>when_task_type = None, when_complexity = None\<rparr>
      | Some w \<Rightarrow> w)"

text \<open>\<^verbatim>\<open>m.name if m else None\<close> and \<^verbatim>\<open>m.cost_per_1m_tokens if m else None\<close>; an instance of
  the dataclass is always true.\<close>

definition name_or_none :: "Model option \<Rightarrow> pyval" where
  "name_or_none m = (case m of None \<Rightarrow> VNone | Some x \<Rightarrow> VStr (name x))"

definition cost_or_none :: "Model option \<Rightarrow> pyval" where
  "cost_or_none m = (case m of None \<Rightarrow> VNone | Some x \<Rightarrow> VNumber (PyInt (cost_per_1m_tokens x)))"

text \<open>The dictionary returned by the budget check (lines 127-131).\<close>

definition blocked_result :: decision where
  "blocked_result =
     [(''status'', VStr ''blocked''),
      (''reason'', VStr ''Daily budget exceeded''),
      (''suggestion'', VStr ''Wait for budget reset or increase limit'')]"

text \<open>
  The body of the loop after both \<^verbatim>\<open>continue\<close> tests, for the matching rule
  (lines 145-167). The entries of the dict literal are computed in their order; the last
  one is the subtraction of line 166, which raises when it has to convert an int that is
  too large for a float.
\<close>

definition matched_rule_result :: "ModelRouter \<Rightarrow> Task \<Rightarrow> rule \<Rightarrow> error + decision" where
  "matched_rule_result self task rule =
     (let model_id = rule_use rule;
          fallback = rule_fallback rule;
          reasoning = (case rule_reasoning rule of
                         None \<Rightarrow> VStr ''No reasoning provided'' | Some v \<Rightarrow> v);
          selected_model = models_get self model_id;
          fallback_model = (if truthy fallback then models_get self fallback else None);
          selected_model = (if selected_model = None then find_cheapest_model self task
                            else selected_model)
      in case py_sub (daily_limit self) (budget_spent_today self) of
           Inl e \<Rightarrow> Inl e
         | Inr budget_remaining \<Rightarrow>
             Inr [(''status'', VStr ''routed''),
                  (''task'', VStr (description task)),
                  (''task_type'', VStr (task_type task)),
                  (''complexity'', VStr (complexity task)),
                  (''selected_model'', name_or_none selected_model),
                  (''fallback_model'', name_or_none fallback_model),
                  (''reasoning'', reasoning),
                  (''estimated_cost'', cost_or_none selected_model),
                  (''budget_remaining'', VNumber budget_remaining)])"

text \<open>The dictionary returned after the loop (lines 169-179).\<close>

definition no_rule_result :: "ModelRouter \<Rightarrow> Task \<Rightarrow> decision" where
  "no_rule_result self task =
     (let model = find_cheapest_model self task
      in [(''status'', VStr ''routed''),
          (''task'', VStr (description task)),
          (''task_type'', VStr (task_type task)),
          (''complexity'', VStr (complexity task)),
          (''selected_model'', name_or_none model),
          (''reasoning'', VStr ''No matching rule - using cheapest option''),
          (''estimated_cost'', cost_or_none model)])"

text \<open>The \<^verbatim>\<open>for\<close> loop over the rules (lines 134-167) and what follows it: a rule is
  skipped by one of the two \<^verbatim>\<open>continue\<close> statements, or it ends the function.\<close>

fun apply_rules :: "ModelRouter \<Rightarrow> Task \<Rightarrow> rule list \<Rightarrow> error + decision" where
  "apply_rules self task [] = Inr (no_rule_result self task)"
| "apply_rules self task (rule # rules) =
     (let when = get_when rule;
          type_match = (when_task_type when = Some (task_type task));
          complexity_match = (when_complexity when = Some (complexity task))
      in if truthy (when_task_type when) \<and> \<not> type_match then apply_rules self task rules
         else if truthy (when_complexity when) \<and> \<not> complexity_match
           then apply_rules self task rules
         else matched_rule_result self task rule)"

definition route_task :: "ModelRouter \<Rightarrow> Task \<Rightarrow> error + decision" where
  "route_task self task =
     (if py_ge (budget_spent_today self) (daily_limit self) then Inr blocked_result
      else apply_rules self task (routing_rules self))"

subsection \<open>track\_cost (lines 189-194)\<close>

text \<open>
  The method updates \<^verbatim>\<open>budget_spent_today\<close> in place: the model returns the new state, or
  the error raised, which leaves the state as it was. Line 193 divides two ints and
  multiplies the quotient, a float, by the cost, an int; line 194 adds the product to what
  was spent.
\<close>

definition track_cost :: "ModelRouter \<Rightarrow> string \<Rightarrow> int \<Rightarrow> error + ModelRouter" where
  "track_cost self model_id tokens_used =
     (case map_of (models self) model_id of
        None \<Rightarrow> Inr self
      | Some model \<Rightarrow>
          (case int_true_divide tokens_used 1000000 of
             Inl e \<Rightarrow> Inl e
           | Inr ratio \<Rightarrow>
               (case py_mul ratio (PyInt (cost_per_1m_tokens model)) of
                  Inl e \<Rightarrow> Inl e
                | Inr cost \<Rightarrow>
                    (case py_add (budget_spent_today self) cost of
                       Inl e \<Rightarrow> Inl e
                     | Inr amount \<Rightarrow> Inr (self\<lparr>budget_spent_today := amount\<rparr>)))))"

subsection \<open>Matching predicates\<close>

text \<open>
  The condition under which the loop of \<^const>\<open>apply_rules\<close> does not skip a rule: neither
  \<^verbatim>\<open>continue\<close> test (lines 140-143) fires, that is, each filter is false as a Python
  value (missing, \<^verbatim>\<open>None\<close> or the empty string) or equals the task's field.
\<close>

definition rule_matches :: "Task \<Rightarrow> rule \<Rightarrow> bool" where
  "rule_matches task rule =
     (let when = get_when rule
      in (\<not> truthy (when_task_type when) \<or> when_task_type when = Some (task_type task)) \<and>
         (\<not> truthy (when_complexity when) \<or> when_complexity when = Some (complexity task)))"

text \<open>
  The matching condition in the words of the specification (section 4.3, step 2): a rule
  matches if and only if \<^verbatim>\<open>when.task_type\<close> is absent or equals the task's type, and
  \<^verbatim>\<open>when.complexity\<close> is absent or equals the task's complexity.
\<close>

definition spec_matches :: "Task \<Rightarrow> rule \<Rightarrow> bool" where
  "spec_matches task rule =
     (let when = get_when rule
      in (when_task_type when = None \<or> when_task_type when = Some (task_type task)) \<and>
         (when_complexity when = None \<or> when_complexity when = Some (complexity task)))"

text \<open>
  First match wins, for a given matching condition: the decision built for the first rule
  of the list that matches, or the one for no rule.
\<close>

definition first_match_result ::
    "(Task \<Rightarrow> rule \<Rightarrow> bool) \<Rightarrow> ModelRouter \<Rightarrow> Task \<Rightarrow> error + decision" where
  "first_match_result matches self task =
     (case find (matches task) (routing_rules self) of
        None \<Rightarrow> Inr (no_rule_result self task)
      | Some rule \<Rightarrow> matched_rule_result self task rule)"

subsection \<open>Example configurations\<close>

definition model_a :: Model where
  "model_a = \<lparr>name = ''Model A'', type = [''chat''], cost_per_1m_tokens = 5,
     max_context = 8000, priority = 1, capabilities = []\<rparr>"

definition model_b :: Model where
  "model_b = \<lparr>name = ''Model B'', type = [''chat''], cost_per_1m_tokens = 2,
     max_context = 8000, priority = 2, capabilities = []\<rparr>"

definition model_c :: Model where
  "model_c = \<lparr>name = ''Model C'', type = [''chat''], cost_per_1m_tokens = 7,
     max_context = 8000, priority = 3, capabilities = []\<rparr>"

definition chat_task :: Task where
  "chat_task = \<lparr>description = ''Chat with me about the weather'', task_type = ''chat'',
     complexity = ''medium'', task_priority = ''normal'', require_fallback = True\<rparr>"

text \<open>A rule for chat tasks that names a model the registry does not have.\<close>

definition ghost_rule :: rule where
  "ghost_rule = \<lparr>rule_when = Some \<lparr>when_task_type = Some ''chat'', when_complexity = None\<rparr>,
     rule_use = Some ''ghost'', rule_fallback = None, rule_reasoning = Some (VStr ''chat goes to ghost'')\<rparr>"

definition ghost_router :: ModelRouter where
  "ghost_router = \<lparr>config_path = ''config/routing.yaml'', models = [(''c'', model_c)],
     routing_rules = [ghost_rule], budget_spent_today = PyInt 0, daily_limit = PyInt 50000\<rparr>"

text \<open>The same router with more spent than the daily limit.\<close>

definition exhausted_router :: ModelRouter where
  "exhausted_router = ghost_router\<lparr>budget_spent_today := PyInt 56000\<rparr>"

text \<open>A rule whose \<^verbatim>\<open>when.task_type\<close> is the empty string, before a rule with no
  \<^verbatim>\<open>when\<close> at all.\<close>

definition empty_filter_rule :: rule where
  "empty_filter_rule =
     \<lparr>rule_when = Some \<lparr>when_task_type = Some [], when_complexity = None\<rparr>,
      rule_use = Some ''a'', rule_fallback = None, rule_reasoning = Some (VStr ''first'')\<rparr>"

definition catch_all_rule :: rule where
  "catch_all_rule = \<lparr>rule_when = None, rule_use = Some ''b'', rule_fallback = None,
     rule_reasoning = Some (VStr ''second'')\<rparr>"

definition empty_filter_router :: ModelRouter where
  "empty_filter_router = \<lparr>config_path = ''config/routing.yaml'',
     models = [(''a'', model_a), (''b'', model_b)],
     routing_rules = [empty_filter_rule, catch_all_rule],
     budget_spent_today = PyInt 0, daily_limit = PyInt 50000\<rparr>"

text \<open>A rule for chat tasks before a rule with no \<^verbatim>\<open>when\<close>: both match a chat task.\<close>

definition chat_rule :: rule where
  "chat_rule = \<lparr>rule_when = Some \<lparr>when_task_type = Some ''chat'', when_complexity = None\<rparr>,
     rule_use = Some ''a'', rule_fallback = Some ''b'', rule_reasoning = Some (VStr ''r1'')\<rparr>"

definition two_rule_router :: ModelRouter where
  "two_rule_router = \<lparr>config_path = ''config/routing.yaml'',
     models = [(''a'', model_a), (''b'', model_b)],
     routing_rules = [chat_rule, catch_all_rule],
     budget_spent_today = PyInt 0, daily_limit = PyInt 50000\<rparr>"

text \<open>A rule for code reviews only, over the two chat models.\<close>

definition review_rule :: rule where
  "review_rule =
     \<lparr>rule_when = Some \<lparr>when_task_type = Some ''code_review'', when_complexity = Some ''high''\<rparr>,
      rule_use = Some ''a'', rule_fallback = Some ''b'', rule_reasoning = None\<rparr>"


text \<open>A chat rule whose \<^verbatim>\<open>when.complexity\<close> is the empty string, after the rule for code
  reviews.\<close>

definition empty_complexity_rule :: rule where
  "empty_complexity_rule =
     \<lparr>rule_when = Some \<lparr>when_task_type = Some ''chat'', when_complexity = Some []\<rparr>,
      rule_use = Some ''b'', rule_fallback = None,
      rule_reasoning = Some (VStr ''chat of any complexity'')\<rparr>"

definition empty_complexity_router :: ModelRouter where
  "empty_complexity_router = \<lparr>config_path = ''config/routing.yaml'',
     models = [(''a'', model_a), (''b'', model_b)],
     routing_rules = [review_rule, empty_complexity_rule],
     budget_spent_today = PyInt 120, daily_limit = PyInt 50000\<rparr>"

text \<open>Three chat models, two of them at the lowest cost, and a task no model serves.\<close>

definition model_d :: Model where
  "model_d = \<lparr>name = ''Model D'', type = [''chat'', ''data''], cost_per_1m_tokens = 2,
     max_context = 16000, priority = 4, capabilities = []\<rparr>"

definition tie_router :: ModelRouter where
  "tie_router = \<lparr>config_path = ''config/routing.yaml'',
     models = [(''a'', model_a), (''b'', model_b), (''d'', model_d)],
     routing_rules = [], budget_spent_today = PyInt 0, daily_limit = PyInt 50000\<rparr>"

definition image_task :: Task where
  "image_task = \<lparr>description = ''Generate image of a lighthouse'', task_type = ''image'',
     complexity = ''medium'', task_priority = ''normal'', require_fallback = True\<rparr>"

text \<open>One model at cost 3, nothing spent; then \<open>2 ^ 53\<close> spent, a float.\<close>

definition model_x :: Model where
  "model_x = \<lparr>name = ''Model X'', type = [''code_simple'', ''chat''], cost_per_1m_tokens = 3,
     max_context = 8000, priority = 1, capabilities = [''code'']\<rparr>"

definition x_router :: ModelRouter where
  "x_router = \<lparr>config_path = ''config/routing.yaml'', models = [(''x'', model_x)],
     routing_rules = [], budget_spent_today = PyInt 0, daily_limit = PyInt 50000\<rparr>"

definition large_router :: ModelRouter where
  "large_router = x_router\<lparr>budget_spent_today := PyFloat (Double 9007199254740992),
     daily_limit := PyInt 10000000000000000\<rparr>"

text \<open>A daily limit of \<open>3 * 2 ^ 52 + 1\<close>, an int, with \<open>3 * 2 ^ 52\<close> spent, a float.\<close>

definition narrow_router :: ModelRouter where
  "narrow_router = two_rule_router\<lparr>budget_spent_today := PyFloat (Double 13510798882111488),
     daily_limit := PyInt 13510798882111489\<rparr>"

text \<open>The router of the two rules after a cost of \<open>3.0\<close> has been added.\<close>

definition spending_router :: ModelRouter where
  "spending_router = two_rule_router\<lparr>budget_spent_today := PyFloat (Double 3)\<rparr>"


section \<open>Properties\<close>

subsection \<open>The budget gate\<close>

text \<open>
  Claim C1. Whenever \<^verbatim>\<open>budget_spent_today >= daily_limit\<close>, \<^verbatim>\<open>route_task\<close> returns the
  blocked decision: status \<^verbatim>\<open>blocked\<close>, reason \<^verbatim>\<open>Daily budget exceeded\<close> and a suggestion
  string. The result is one fixed dictionary, whatever the task, the registry and the rule
  list are, so neither the rules nor the models take part in it.
\<close>

theorem route_task_budget_gate:
  assumes "py_ge (budget_spent_today self) (daily_limit self)"
  shows "route_task self task =
           Inr [(''status'', VStr ''blocked''),
                (''reason'', VStr ''Daily budget exceeded''),
                (''suggestion'', VStr ''Wait for budget reset or increase limit'')]"
  using assms by (simp add: route_task_def blocked_result_def)

theorem route_task_budget_gate_witness:
  "py_ge (budget_spent_today exhausted_router) (daily_limit exhausted_router) \<and>
   route_task exhausted_router chat_task =
     Inr [(''status'', VStr ''blocked''),
          (''reason'', VStr ''Daily budget exceeded''),
          (''suggestion'', VStr ''Wait for budget reset or increase limit'')]"
proof -
  have gate: "py_ge (budget_spent_today exhausted_router) (daily_limit exhausted_router)"
    by (simp add: exhausted_router_def ghost_router_def)
  from gate route_task_budget_gate [OF gate, of chat_task] show ?thesis by simp
qed

subsection \<open>The classifier\<close>

lemma lower_keeps_architecture:
  assumes "sublist ''architecture'' s"
  shows "sublist ''architecture'' (lower s)"
proof -
  have "sublist (map lower_char ''architecture'') (map lower_char s)"
    using assms by (rule map_mono_sublist)
  moreover have "map lower_char ''architecture'' = ''architecture''"
    by (simp add: lower_char_def)
  ultimately show ?thesis by (simp add: lower_def)
qed

text \<open>
  Claim C3, as stated, says that every description containing \<^verbatim>\<open>architecture\<close> is
  classified as \<^verbatim>\<open>code_complex\<close> with complexity \<^verbatim>\<open>high\<close>. Both passes are
  first-match-wins, and the groups tested earlier take precedence: the description
  \<^verbatim>\<open>Implement a simple architecture\<close> contains \<^verbatim>\<open>implement\<close> and \<^verbatim>\<open>simple\<close>, and is
  classified as \<^verbatim>\<open>code_simple\<close> with complexity \<^verbatim>\<open>low\<close>.
\<close>

theorem classify_task_architecture_counterexample:
  "sublist ''architecture'' ''Implement a simple architecture'' \<and>
   task_type (classify_task ''Implement a simple architecture'') = ''code_simple'' \<and>
   complexity (classify_task ''Implement a simple architecture'') = ''low'' \<and>
   \<not> (task_type (classify_task ''Implement a simple architecture'') = ''code_complex'' \<and>
      complexity (classify_task ''Implement a simple architecture'') = ''high'')"
  by code_simp

text \<open>
  Claim C3, amended. For every description containing \<^verbatim>\<open>architecture\<close>: the task type
  is \<^verbatim>\<open>code_complex\<close> when the lowercased description contains no keyword of the three
  groups tested before (\<^verbatim>\<open>code_simple\<close>, \<^verbatim>\<open>code_review\<close>, \<^verbatim>\<open>debugging\<close>), and the
  complexity is \<^verbatim>\<open>high\<close> when the lowercased description contains none of \<^verbatim>\<open>simple\<close>,
  \<^verbatim>\<open>basic\<close>, \<^verbatim>\<open>easy\<close>.
\<close>

theorem classify_task_architecture:
  assumes "sublist ''architecture'' task_description"
  shows "(\<not> any_word_in [''write code'', ''create function'', ''implement'',
                         ''review code'', ''refactor'', ''audit'',
                         ''debug'', ''fix error'', ''solve bug''] (lower task_description)
          \<longrightarrow> task_type (classify_task task_description) = ''code_complex'') \<and>
         (\<not> any_word_in [''simple'', ''basic'', ''easy''] (lower task_description)
          \<longrightarrow> complexity (classify_task task_description) = ''high'')"
proof -
  have arch: "sublist ''architecture'' (lower task_description)"
    using assms by (rule lower_keeps_architecture)
  show ?thesis
    using arch by (simp add: classify_task_def any_word_in_def Let_def)
qed

theorem classify_task_architecture_witness:
  "sublist ''architecture'' ''Design a microservice architecture for a chat application'' \<and>
   \<not> any_word_in [''write code'', ''create function'', ''implement'',
                  ''review code'', ''refactor'', ''audit'',
                  ''debug'', ''fix error'', ''solve bug'']
       (lower ''Design a microservice architecture for a chat application'') \<and>
   \<not> any_word_in [''simple'', ''basic'', ''easy'']
       (lower ''Design a microservice architecture for a chat application'') \<and>
   task_type (classify_task ''Design a microservice architecture for a chat application'')
     = ''code_complex'' \<and>
   complexity (classify_task ''Design a microservice architecture for a chat application'')
     = ''high''"
proof -
  have a: "sublist ''architecture'' ''Design a microservice architecture for a chat application''"
    by code_simp
  have b: "\<not> any_word_in [''write code'', ''create function'', ''implement'',
                  ''review code'', ''refactor'', ''audit'',
                  ''debug'', ''fix error'', ''solve bug'']
       (lower ''Design a microservice architecture for a chat application'')"
    by code_simp
  have c: "\<not> any_word_in [''simple'', ''basic'', ''easy'']
       (lower ''Design a microservice architecture for a chat application'')"
    by code_simp
  from classify_task_architecture [OF a] a b c show ?thesis by blast
qed

subsection \<open>The rule scan\<close>

text \<open>The loop commits to the first rule that \<^const>\<open>rule_matches\<close> accepts.\<close>

lemma apply_rules_find:
  "apply_rules self task rules =
     (case find (rule_matches task) rules of
        None \<Rightarrow> Inr (no_rule_result self task)
      | Some rule \<Rightarrow> matched_rule_result self task rule)"
  by (induction rules) (simp_all add: rule_matches_def Let_def)

lemma find_first:
  assumes "\<forall>x \<in> set pre. \<not> P x" and "P y"
  shows "find P (pre @ y # post) = Some y"
  using assms by (induction pre) simp_all

lemma route_task_open:
  assumes "\<not> py_ge (budget_spent_today self) (daily_limit self)"
  shows "route_task self task = apply_rules self task (routing_rules self)"
  using assms by (simp add: route_task_def)


text \<open>The budget check passes whenever \<^verbatim>\<open>budget_spent_today < daily_limit\<close>.\<close>

lemma py_lt_not_ge: "py_lt a b \<Longrightarrow> \<not> py_ge a b"
  by (simp add: py_lt_def)

text \<open>
  Claim C2, as stated, takes a rule to match if and only if each filter is absent or equal
  to the task's field (\<^const>\<open>spec_matches\<close>). The code tests the truth value of the filter
  before comparing, so a filter that is present but empty does not exclude anything. With
  the rules \<^verbatim>\<open>[{when: {task_type: ""}, use: a, reasoning: first}, {use: b, reasoning: second}]\<close>
  and a chat task, the first rule does not match in the sense of the claim and the second
  does, yet \<^verbatim>\<open>route_task\<close> commits to the first.
\<close>

theorem route_task_first_match_counterexample:
  "py_lt (budget_spent_today empty_filter_router) (daily_limit empty_filter_router) \<and>
   routing_rules empty_filter_router = [empty_filter_rule, catch_all_rule] \<and>
   \<not> spec_matches chat_task empty_filter_rule \<and>
   spec_matches chat_task catch_all_rule \<and>
   first_match_result spec_matches empty_filter_router chat_task
     = matched_rule_result empty_filter_router chat_task catch_all_rule \<and>
   route_task empty_filter_router chat_task
     = matched_rule_result empty_filter_router chat_task empty_filter_rule \<and>
   decision_get (route_task empty_filter_router chat_task) ''reasoning''
     = Inr (Some (VStr ''first'')) \<and>
   decision_get (first_match_result spec_matches empty_filter_router chat_task) ''reasoning''
     = Inr (Some (VStr ''second'')) \<and>
   route_task empty_filter_router chat_task
     \<noteq> first_match_result spec_matches empty_filter_router chat_task"
  by (simp add: empty_filter_router_def empty_filter_rule_def catch_all_rule_def chat_task_def
      spec_matches_def get_when_def first_match_result_def route_task_def truthy_def
      matched_rule_result_def models_get_def model_a_def model_b_def name_or_none_def
      cost_or_none_def py_lt_def py_sub_def decision_get_def)

text \<open>
  Claim C2, amended. When the budget check passes, as it does when
  \<^verbatim>\<open>budget_spent_today < daily_limit\<close>, \<^verbatim>\<open>route_task\<close> commits to the first rule, in list
  order, for which \<^verbatim>\<open>when.task_type\<close> is absent, \<^verbatim>\<open>None\<close>, empty or equal to the task's
  type, and \<^verbatim>\<open>when.complexity\<close> is absent, \<^verbatim>\<open>None\<close>, empty or equal to the task's
  complexity (\<^const>\<open>rule_matches\<close>). A rule after the first matching one has no influence
  on the decision.
\<close>

theorem route_task_first_match:
  assumes "\<not> py_ge (budget_spent_today self) (daily_limit self)"
  shows "route_task self task = first_match_result rule_matches self task \<and>
         (\<forall>pre rule post.
            routing_rules self = pre @ rule # post \<and>
            (\<forall>earlier \<in> set pre. \<not> rule_matches task earlier) \<and> rule_matches task rule
            \<longrightarrow> route_task self task = matched_rule_result self task rule)"
proof -
  have first: "route_task self task = first_match_result rule_matches self task"
    using assms by (simp add: route_task_def first_match_result_def apply_rules_find)
  moreover have "route_task self task = matched_rule_result self task rule"
    if "routing_rules self = pre @ rule # post"
       "\<forall>earlier \<in> set pre. \<not> rule_matches task earlier" "rule_matches task rule"
    for pre rule post
    using that first by (simp add: first_match_result_def find_first)
  ultimately show ?thesis by blast
qed

theorem route_task_first_match_witness:
  "py_lt (budget_spent_today two_rule_router) (daily_limit two_rule_router) \<and>
   routing_rules two_rule_router = [] @ chat_rule # [catch_all_rule] \<and>
   rule_matches chat_task chat_rule \<and>
   rule_matches chat_task catch_all_rule \<and>
   route_task two_rule_router chat_task = first_match_result rule_matches two_rule_router chat_task \<and>
   route_task two_rule_router chat_task = matched_rule_result two_rule_router chat_task chat_rule \<and>
   decision_get (route_task two_rule_router chat_task) ''reasoning'' = Inr (Some (VStr ''r1'')) \<and>
   decision_get (route_task two_rule_router chat_task) ''selected_model''
     = Inr (Some (VStr ''Model A'')) \<and>
   decision_get (route_task two_rule_router chat_task) ''estimated_cost''
     = Inr (Some (VNumber (PyInt 5)))"
proof -
  have below: "py_lt (budget_spent_today two_rule_router) (daily_limit two_rule_router)"
    by (simp add: two_rule_router_def py_lt_def)
  then have gate: "\<not> py_ge (budget_spent_today two_rule_router) (daily_limit two_rule_router)"
    by (rule py_lt_not_ge)
  have rules: "routing_rules two_rule_router = [] @ chat_rule # [catch_all_rule]"
    by (simp add: two_rule_router_def)
  have m1: "rule_matches chat_task chat_rule"
    by (simp add: rule_matches_def get_when_def chat_rule_def chat_task_def truthy_def)
  have m2: "rule_matches chat_task catch_all_rule"
    by (simp add: rule_matches_def get_when_def catch_all_rule_def truthy_def)
  note inst = route_task_first_match [OF gate, of chat_task]
  have first: "route_task two_rule_router chat_task
                 = first_match_result rule_matches two_rule_router chat_task"
    using inst by blast
  have committed: "route_task two_rule_router chat_task
                     = matched_rule_result two_rule_router chat_task chat_rule"
    using inst rules m1 by fastforce
  have fields:
    "decision_get (matched_rule_result two_rule_router chat_task chat_rule) ''reasoning''
       = Inr (Some (VStr ''r1'')) \<and>
     decision_get (matched_rule_result two_rule_router chat_task chat_rule) ''selected_model''
       = Inr (Some (VStr ''Model A'')) \<and>
     decision_get (matched_rule_result two_rule_router chat_task chat_rule) ''estimated_cost''
       = Inr (Some (VNumber (PyInt 5)))"
    by (simp add: matched_rule_result_def two_rule_router_def chat_rule_def models_get_def
        model_a_def model_b_def name_or_none_def cost_or_none_def truthy_def py_sub_def
        decision_get_def)
  from below rules m1 m2 first committed fields show ?thesis by simp
qed

subsection \<open>Rounding to a double\<close>

text \<open>
  \<^const>\<open>ilog2\<close> finds the exponent, and rounding to the nearest double is monotone: it does
  not cross a double. The lemmas at the end compute the float of a given number without
  evaluating \<^const>\<open>fl\<close>.
\<close>

lemma log2_ge1_bounds:
  "1 \<le> x \<Longrightarrow> 2 ^ log2_ge1 x \<le> x \<and> x < 2 ^ Suc (log2_ge1 x)"
proof (induction x rule: log2_ge1.induct)
  case (1 x)
  show ?case
  proof (cases "x < 2")
    case True
    with "1.prems" show ?thesis by (simp add: log2_ge1.simps)
  next
    case False
    then have "1 \<le> x / 2" by simp
    with "1.IH" False have "2 ^ log2_ge1 (x / 2) \<le> x / 2 \<and> x / 2 < 2 ^ Suc (log2_ge1 (x / 2))"
      by simp
    moreover have "log2_ge1 x = Suc (log2_ge1 (x / 2))"
      using False by (simp add: log2_ge1.simps)
    ultimately show ?thesis by simp
  qed
qed

lemma log2_lt1_bounds:
  "0 < x \<Longrightarrow> x < 1 \<Longrightarrow> 1 \<le> x * 2 ^ log2_lt1 x \<and> x * 2 ^ log2_lt1 x < 2"
proof (induction x rule: log2_lt1.induct)
  case (1 x)
  show ?case
  proof (cases "1 \<le> 2 * x")
    case True
    then have "log2_lt1 (2 * x) = 0" by (simp add: log2_lt1.simps)
    moreover have "log2_lt1 x = Suc (log2_lt1 (2 * x))"
      using "1.prems" by (simp add: log2_lt1.simps)
    ultimately show ?thesis using True "1.prems" by simp
  next
    case False
    then have small: "2 * x < 1" by simp
    have pos: "0 < 2 * x" using "1.prems" by simp
    have step: "log2_lt1 x = Suc (log2_lt1 (2 * x))"
      using "1.prems" by (simp add: log2_lt1.simps)
    from "1.IH" "1.prems" pos small
    have "1 \<le> 2 * x * 2 ^ log2_lt1 (2 * x) \<and> 2 * x * 2 ^ log2_lt1 (2 * x) < 2"
      by simp
    with step show ?thesis by (simp add: mult.assoc mult.left_commute)
  qed
qed

lemma ilog2_bounds:
  assumes "0 < x"
  shows "2 powi (ilog2 x) \<le> x" and "x < 2 powi (ilog2 x + 1)"
proof -
  show "2 powi (ilog2 x) \<le> x"
  proof (cases "1 \<le> x")
    case True
    then show ?thesis using log2_ge1_bounds [OF True] by (simp add: ilog2_def)
  next
    case False
    then have lt: "x < 1" by simp
    from log2_lt1_bounds [OF assms lt] have "1 \<le> x * 2 ^ log2_lt1 x" by simp
    then have "1 / 2 ^ log2_lt1 x \<le> x"
      by (simp add: divide_le_eq)
    with False show ?thesis
      by (simp add: ilog2_def power_int_minus field_simps)
  qed
  show "x < 2 powi (ilog2 x + 1)"
  proof (cases "1 \<le> x")
    case True
    then show ?thesis using log2_ge1_bounds [OF True]
      by (simp add: ilog2_def power_int_add)
  next
    case False
    then have lt: "x < 1" by simp
    from log2_lt1_bounds [OF assms lt] have "x * 2 ^ log2_lt1 x < 2" by simp
    then have "x < 2 / 2 ^ log2_lt1 x"
      by (simp add: less_divide_eq)
    moreover have "(2::rat) powi (- int (log2_lt1 x) + 1) = 2 / 2 ^ log2_lt1 x"
      by (simp add: power_int_diff)
    ultimately show ?thesis using False
      by (simp add: ilog2_def)
  qed
qed

lemma ilog2_mono:
  assumes "0 < x" and "x \<le> y"
  shows "ilog2 x \<le> ilog2 y"
proof (rule ccontr)
  assume "\<not> ilog2 x \<le> ilog2 y"
  then have "ilog2 y + 1 \<le> ilog2 x" by simp
  then have "(2::rat) powi (ilog2 y + 1) \<le> 2 powi (ilog2 x)"
    by (intro power_int_increasing) simp_all
  moreover have "y < 2 powi (ilog2 y + 1)"
    using assms by (intro ilog2_bounds) simp
  moreover have "2 powi (ilog2 x) \<le> x"
    using assms by (intro ilog2_bounds)
  ultimately show False using assms by linarith
qed

lemma round_even_bounds:
  "\<lfloor>r\<rfloor> \<le> round_even r" "round_even r \<le> \<lceil>r\<rceil>"
proof -
  show "\<lfloor>r\<rfloor> \<le> round_even r"
    by (auto simp add: round_even_def Let_def)
  show "round_even r \<le> \<lceil>r\<rceil>"
  proof (cases "r = of_int \<lfloor>r\<rfloor>")
    case True
    then have "r - of_int \<lfloor>r\<rfloor> = 0" by simp
    then show ?thesis by (simp add: round_even_def Let_def)
  next
    case False
    then have "\<lceil>r\<rceil> = \<lfloor>r\<rfloor> + 1"
      by (metis ceiling_altdef)
    then show ?thesis by (auto simp add: round_even_def Let_def)
  qed
qed

lemma round_even_of_int [simp]: "round_even (of_int n) = n"
  by (simp add: round_even_def)

lemma round_even_ge: "of_int n \<le> r \<Longrightarrow> n \<le> round_even r"
proof -
  assume "of_int n \<le> r"
  then have "n \<le> \<lfloor>r\<rfloor>" by (simp add: le_floor_iff)
  with round_even_bounds(1) [of r] show ?thesis by linarith
qed

lemma round_even_le: "r \<le> of_int n \<Longrightarrow> round_even r \<le> n"
proof -
  assume "r \<le> of_int n"
  then have "\<lceil>r\<rceil> \<le> n" by (simp add: ceiling_le_iff)
  with round_even_bounds(2) [of r] show ?thesis by linarith
qed

lemma pow2_pos [simp]: "(0::rat) < 2 powi e"
  by (simp add: zero_less_power_int)

lemma pow2_split:
  assumes "e \<le> k"
  shows "(2::rat) powi k = of_int (2 ^ nat (k - e)) * 2 powi e"
proof -
  have "(2::rat) powi k = 2 powi ((k - e) + e)" by simp
  also have "\<dots> = 2 powi (k - e) * 2 powi e"
    by (rule power_int_add) simp
  also have "(2::rat) powi (k - e) = 2 ^ nat (k - e)"
    using assms by (simp add: power_int_def)
  finally show ?thesis by simp
qed

lemma ulp_exponent_mono:
  assumes "0 < x" and "x \<le> y"
  shows "ulp_exponent x \<le> ulp_exponent y"
proof -
  have "ilog2 \<bar>x\<bar> \<le> ilog2 \<bar>y\<bar>"
    using assms by (intro ilog2_mono) simp_all
  then show ?thesis by (simp add: ulp_exponent_def)
qed

lemma nearest_nonneg: "0 \<le> x \<Longrightarrow> 0 \<le> nearest x"
proof -
  assume "0 \<le> x"
  then have "(0::rat) \<le> x / 2 powi ulp_exponent x" by simp
  then have "of_int 0 \<le> x / 2 powi ulp_exponent x" by simp
  then have "0 \<le> round_even (x / 2 powi ulp_exponent x)"
    by (rule round_even_ge)
  then show ?thesis by (simp add: nearest_def)
qed

text \<open>A positive double is a whole multiple of every finer grid.\<close>

lemma nearest_upper:
  assumes "0 < y" and "y \<le> b" and fixed: "nearest b = b"
  shows "nearest y \<le> b"
proof -
  define ey where "ey = ulp_exponent y"
  define eb where "eb = ulp_exponent b"
  define mb where "mb = round_even (b / 2 powi eb)"
  have le: "ey \<le> eb"
    unfolding ey_def eb_def using assms(1,2) by (rule ulp_exponent_mono)
  have b: "b = of_int mb * 2 powi eb"
    using fixed by (simp add: nearest_def mb_def eb_def)
  have "(2::rat) powi eb = of_int (2 ^ nat (eb - ey)) * 2 powi ey"
    using le by (rule pow2_split)
  with b have b': "b = of_int (mb * 2 ^ nat (eb - ey)) * 2 powi ey"
    by simp
  then have "b / 2 powi ey = of_int (mb * 2 ^ nat (eb - ey))"
    by simp
  moreover have "y / 2 powi ey \<le> b / 2 powi ey"
    using assms(2) by (simp add: divide_right_mono)
  ultimately have "round_even (y / 2 powi ey) \<le> mb * 2 ^ nat (eb - ey)"
    by (intro round_even_le) simp
  then have "(of_int (round_even (y / 2 powi ey)) :: rat) \<le> of_int (mb * 2 ^ nat (eb - ey))"
    by (simp only: of_int_le_iff)
  then have "of_int (round_even (y / 2 powi ey)) * 2 powi ey
               \<le> of_int (mb * 2 ^ nat (eb - ey)) * (2::rat) powi ey"
    by (intro mult_right_mono) simp_all
  with b' show ?thesis
    by (simp add: nearest_def ey_def)
qed

lemma double_exponent:
  assumes "0 < a" and fixed: "nearest a = a"
  shows "- 1074 \<le> ilog2 a"
proof -
  define e where "e = ulp_exponent a"
  define m where "m = round_even (a / 2 powi e)"
  have a: "a = of_int m * 2 powi e"
    using fixed by (simp add: nearest_def m_def e_def)
  with assms(1) have "0 < (of_int m :: rat)"
    by (metis pow2_pos zero_less_mult_pos2)
  then have "1 \<le> m" by simp
  then have "(1::rat) \<le> of_int m" by simp
  then have "1 * 2 powi e \<le> of_int m * (2::rat) powi e"
    by (intro mult_right_mono) simp_all
  with a have "2 powi e \<le> a" by simp
  moreover have "- 1074 \<le> e" by (simp add: e_def ulp_exponent_def)
  then have "(2::rat) powi (- 1074) \<le> 2 powi e"
    by (intro power_int_increasing) simp_all
  moreover have "a < 2 powi (ilog2 a + 1)"
    using assms(1) by (rule ilog2_bounds)
  ultimately have strict: "(2::rat) powi (- 1074) < 2 powi (ilog2 a + 1)" by linarith
  show ?thesis
  proof (rule ccontr)
    assume "\<not> - 1074 \<le> ilog2 a"
    then have "ilog2 a + 1 \<le> - 1074" by simp
    then have "(2::rat) powi (ilog2 a + 1) \<le> 2 powi (- 1074)"
      by (intro power_int_increasing) simp_all
    with strict show False by linarith
  qed
qed

lemma nearest_lower:
  assumes "0 < a" and "a \<le> x" and fixed: "nearest a = a"
  shows "a \<le> nearest x"
proof (cases "ilog2 a = ilog2 x")
  case True
  define e where "e = ulp_exponent x"
  have same: "ulp_exponent a = e"
    using True assms(1,2) by (simp add: ulp_exponent_def e_def)
  define m where "m = round_even (a / 2 powi e)"
  have a: "a = of_int m * 2 powi e"
    using fixed same by (simp add: nearest_def m_def)
  then have "a / 2 powi e = of_int m" by simp
  moreover have "a / 2 powi e \<le> x / 2 powi e"
    using assms(2) by (simp add: divide_right_mono)
  ultimately have "m \<le> round_even (x / 2 powi e)"
    by (intro round_even_ge) simp
  then have "(of_int m :: rat) \<le> of_int (round_even (x / 2 powi e))"
    by (simp only: of_int_le_iff)
  then have "of_int m * 2 powi e \<le> of_int (round_even (x / 2 powi e)) * (2::rat) powi e"
    by (intro mult_right_mono) simp_all
  with a show ?thesis by (simp add: nearest_def e_def)
next
  case False
  have pos: "0 < x" using assms(1,2) by simp
  define k where "k = ilog2 x"
  define e where "e = ulp_exponent x"
  have "ilog2 a \<le> k"
    unfolding k_def using assms(1,2) by (rule ilog2_mono)
  with False have less: "ilog2 a + 1 \<le> k" by (simp add: k_def)
  have "a < 2 powi (ilog2 a + 1)"
    using assms(1) by (rule ilog2_bounds)
  moreover have "(2::rat) powi (ilog2 a + 1) \<le> 2 powi k"
    using less by (intro power_int_increasing) simp_all
  ultimately have below: "a < 2 powi k" by linarith
  have "- 1074 \<le> ilog2 a"
    using assms(1) fixed by (rule double_exponent)
  with less have "- 1074 \<le> k" by simp
  then have le: "e \<le> k"
    using pos by (simp add: e_def ulp_exponent_def k_def)
  have split: "(2::rat) powi k = of_int (2 ^ nat (k - e)) * 2 powi e"
    using le by (rule pow2_split)
  have "2 powi k \<le> x"
    unfolding k_def using pos by (rule ilog2_bounds)
  then have "2 powi k / 2 powi e \<le> x / 2 powi e"
    by (simp add: divide_right_mono)
  moreover have "2 powi k / 2 powi e = (of_int (2 ^ nat (k - e)) :: rat)"
    using split by simp
  ultimately have "2 ^ nat (k - e) \<le> round_even (x / 2 powi e)"
    by (intro round_even_ge) simp
  then have "(of_int (2 ^ nat (k - e)) :: rat) \<le> of_int (round_even (x / 2 powi e))"
    by (simp only: of_int_le_iff)
  then have "of_int (2 ^ nat (k - e)) * 2 powi e
               \<le> of_int (round_even (x / 2 powi e)) * (2::rat) powi e"
    by (intro mult_right_mono) simp_all
  with split have "2 powi k \<le> nearest x"
    by (simp add: nearest_def e_def)
  with below show ?thesis by linarith
qed

lemma fl_nonneg: "0 \<le> x \<Longrightarrow> float_ge (fl x) 0"
  using nearest_nonneg [of x] by (simp add: fl_def Let_def)

lemma is_double_pos: "is_double a \<Longrightarrow> 0 < a \<Longrightarrow> nearest a = a"
  by (simp add: is_double_def fl_def Let_def split: if_splits)

lemma is_double_neg: "is_double a \<Longrightarrow> a < 0 \<Longrightarrow> nearest (- a) = - a \<and> - a < 2 ^ 1024"
  by (simp add: is_double_def fl_def Let_def split: if_splits)

text \<open>Rounding never crosses a double: what lies above a double is rounded to a float
  that is not below it.\<close>

lemma fl_above_double:
  assumes "is_double a" and "a \<le> x"
  shows "float_ge (fl x) a"
proof -
  consider "0 < a" | "a = 0" | "a < 0" "0 \<le> x" | "a < 0" "x < 0"
    by linarith
  then show ?thesis
  proof cases
    case 1
    then have "a \<le> nearest x"
      using assms by (intro nearest_lower is_double_pos)
    with 1 assms(2) show ?thesis
      by (simp add: fl_def Let_def)
  next
    case 2
    with assms(2) show ?thesis using fl_nonneg [of x] by simp
  next
    case 3
    then have "float_ge (fl x) 0" by (intro fl_nonneg)
    with 3 show ?thesis by (cases "fl x") simp_all
  next
    case 4
    from assms(1) 4(1) have fixeda: "nearest (- a) = - a" and range: "- a < 2 ^ 1024"
      using is_double_neg by blast+
    have "nearest (- x) \<le> - a"
      using 4 assms(2) fixeda by (intro nearest_upper) simp_all
    with range 4 show ?thesis
      by (simp add: fl_def Let_def)
  qed
qed

lemma fl_minus:
  "fl (- x) = float_neg (fl x)"
  by (simp add: fl_def Let_def)

lemma is_double_minus: "is_double a \<Longrightarrow> is_double (- a)"
  by (simp add: is_double_def fl_minus)

lemma fl_below_double:
  assumes "is_double b" and "x \<le> b"
  shows "float_le (fl x) b"
proof -
  have "is_double (- b)" and "- b \<le> - x"
    using assms by (simp_all add: is_double_minus)
  then have "float_ge (fl (- x)) (- b)"
    by (rule fl_above_double)
  then show ?thesis
    by (cases "fl x") (simp_all add: fl_minus)
qed

text \<open>Evaluation: the exponent of a number between two powers of two, and the double
  nearest to a number of at least \<open>2 ^ 52\<close>.\<close>

lemma ilog2_eqI:
  assumes "2 powi k \<le> x" and "x < 2 powi (k + 1)"
  shows "ilog2 x = k"
proof -
  have pos: "0 < x"
    using assms(1) pow2_pos [of k] by linarith
  have low: "2 powi (ilog2 x) \<le> x" and high: "x < 2 powi (ilog2 x + 1)"
    using pos by (rule ilog2_bounds)+
  have "\<not> ilog2 x + 1 \<le> k"
  proof
    assume "ilog2 x + 1 \<le> k"
    then have "(2::rat) powi (ilog2 x + 1) \<le> 2 powi k"
      by (intro power_int_increasing) simp_all
    with high assms(1) show False by linarith
  qed
  moreover have "\<not> k + 1 \<le> ilog2 x"
  proof
    assume "k + 1 \<le> ilog2 x"
    then have "(2::rat) powi (k + 1) \<le> 2 powi (ilog2 x)"
      by (intro power_int_increasing) simp_all
    with low assms(2) show False by linarith
  qed
  ultimately show ?thesis by linarith
qed

lemma fl_large:
  assumes "2 ^ (52 + n) \<le> x" and "x < 2 ^ (53 + n)"
      and "m = round_even (x / 2 ^ n)" and "of_int m * 2 ^ n < (2::rat) ^ 1024"
  shows "fl x = Double (of_int m * 2 ^ n)"
proof -
  have "(0::rat) < 2 ^ (52 + n)"
    by simp
  with assms(1) have pos: "0 < x"
    by linarith
  have "ilog2 x = 52 + int n"
  proof (rule ilog2_eqI)
    show "2 powi (52 + int n) \<le> x"
      using assms(1) by (simp add: power_int_add power_add)
    show "x < 2 powi (52 + int n + 1)"
      using assms(2) by (simp add: power_int_add power_add)
  qed
  then have "ulp_exponent x = int n"
    using pos by (simp add: ulp_exponent_def)
  then have "nearest x = of_int m * 2 ^ n"
    using assms(3) by (simp add: nearest_def)
  with pos assms(4) show ?thesis
    by (simp add: fl_def Let_def)
qed

text \<open>Every int below \<open>2 ^ 53\<close> in size is a double.\<close>

lemma nearest_whole:
  assumes "0 < x" and "x / 2 powi ulp_exponent x = of_int n"
  shows "nearest x = x"
proof -
  from assms(2) have "x = of_int n * 2 powi ulp_exponent x"
    by (simp add: divide_eq_eq)
  then show ?thesis
    using assms(2) by (simp add: nearest_def)
qed

lemma fl_of_int:
  assumes "\<bar>i\<bar> < 2 ^ 53"
  shows "fl (of_int i) = Double (of_int i)"
proof (cases "i = 0")
  case True
  then show ?thesis by (simp add: fl_def)
next
  case False
  define x :: rat where "x = of_int \<bar>i\<bar>"
  have pos: "0 < x" using False by (simp add: x_def)
  have "(of_int \<bar>i\<bar> :: rat) < of_int (2 ^ 53)"
    using assms by (simp only: of_int_less_iff)
  then have "x < 2 ^ 53"
    by (simp add: x_def)
  then have small: "x < 2 powi 53" by simp
  have "\<not> 53 \<le> ilog2 x"
  proof
    assume "53 \<le> ilog2 x"
    then have "(2::rat) powi 53 \<le> 2 powi (ilog2 x)"
      by (intro power_int_increasing) simp_all
    with ilog2_bounds(1) [OF pos] small show False by linarith
  qed
  then have e: "ulp_exponent x \<le> 0"
    using pos by (simp add: ulp_exponent_def)
  define e where "e = ulp_exponent x"
  have "(1::rat) = 2 powi 0" by simp
  also have "\<dots> = of_int (2 ^ nat (0 - e)) * 2 powi e"
    using e unfolding e_def by (intro pow2_split)
  finally have "1 / 2 powi e = (of_int (2 ^ nat (- e)) :: rat)"
    by (simp add: field_simps)
  then have "x / 2 powi e = of_int (\<bar>i\<bar> * 2 ^ nat (- e))"
    by (simp add: x_def field_simps)
  with pos have fixed: "nearest x = x"
    unfolding e_def by (rule nearest_whole)
  have range: "x < 2 ^ 1024"
  proof -
    have "(2::rat) ^ 53 \<le> 2 ^ 1024" by simp
    with \<open>x < 2 ^ 53\<close> show ?thesis by linarith
  qed
  have abs: "\<bar>of_int i :: rat\<bar> = x" by (simp add: x_def)
  show ?thesis
  proof (cases "0 < i")
    case True
    then have "of_int i = x" by (simp add: x_def)
    with fixed range pos show ?thesis by (simp add: fl_def Let_def)
  next
    case neg: False
    with False have "i < 0" by simp
    then have "(of_int i :: rat) = - x" by (simp add: x_def)
    with fixed range pos show ?thesis by (simp add: fl_def Let_def)
  qed
qed

lemma round_even_half: "round_even (of_int n + 1 / 2) = (if even n then n else n + 1)"
proof -
  have "\<lfloor>(of_int n :: rat) + 1 / 2\<rfloor> = n"
    by (rule floor_unique) simp_all
  then show ?thesis
    by (simp add: round_even_def)
qed

lemma round_even_eqI:
  assumes "of_int n - 1 / 2 < r" and "r < of_int n + 1 / 2"
  shows "round_even r = n"
proof (cases "r < of_int n")
  case True
  have "\<lfloor>r\<rfloor> = n - 1"
    using True assms(1) by (intro floor_unique) simp_all
  with assms(1) show ?thesis
    by (simp add: round_even_def Let_def)
next
  case False
  have "\<lfloor>r\<rfloor> = n"
    using False assms(2) by (intro floor_unique) simp_all
  with assms(2) show ?thesis
    by (simp add: round_even_def Let_def)
qed



lemma is_double_of_int: "\<bar>i\<bar> < 2 ^ 53 \<Longrightarrow> is_double (of_int i)"
  by (simp add: is_double_def fl_of_int)

lemma fl_numeral: "numeral n < (2::int) ^ 53 \<Longrightarrow> fl (numeral n) = Double (numeral n)"
  using fl_of_int [of "numeral n"] by simp

lemma fl_one: "fl 1 = Double 1"
  using fl_of_int [of 1] by simp

lemma fl_zero: "fl 0 = Double 0"
  by (simp add: fl_def)





lemma to_float_raises: "to_float n = Inl e \<Longrightarrow> e = OverflowError"
  by (simp add: to_float_def split: number.splits pyfloat.splits)




text \<open>
  Every double is a whole multiple of the least positive double, \<open>2 ^ -1074\<close>, so two
  different doubles differ by at least that much, and their rounded difference is not
  zero.
\<close>

lemma double_multiple:
  assumes "is_double x"
  shows "\<exists>m. x = of_int m * 2 powi (- 1074)"
proof -
  have positive: "\<exists>m. a = of_int m * 2 powi (- 1074)" if "nearest a = a" for a
  proof -
    define e where "e = ulp_exponent a"
    have "- 1074 \<le> e"
      by (simp add: e_def ulp_exponent_def)
    then have "(2::rat) powi e = of_int (2 ^ nat (e - (- 1074))) * 2 powi (- 1074)"
      by (rule pow2_split)
    then have "nearest a
                 = of_int (round_even (a / 2 powi e) * 2 ^ nat (e - (- 1074))) * 2 powi (- 1074)"
      by (simp add: nearest_def e_def)
    with that show ?thesis
      by metis
  qed
  consider "x = 0" | "0 < x" | "x < 0"
    by linarith
  then show ?thesis
  proof cases
    case 1
    then show ?thesis
      by (intro exI [of _ 0]) simp
  next
    case 2
    with assms have "nearest x = x"
      by (intro is_double_pos)
    then show ?thesis
      by (rule positive)
  next
    case 3
    with assms have "nearest (- x) = - x"
      using is_double_neg by blast
    then obtain m where "- x = of_int m * 2 powi (- 1074)"
      using positive [of "- x"] by blast
    then have "x = of_int (- m) * 2 powi (- 1074)"
      by simp
    then show ?thesis
      by blast
  qed
qed

lemma is_double_least: "is_double (2 powi (- 1074))"
proof -
  define a :: rat where "a = 2 powi (- 1074)"
  have pos: "0 < a"
    by (simp add: a_def)
  have "a < 2 powi (- 1074 + 1)"
  proof -
    have "(2::rat) powi (- 1074 + 1) = 2 powi (- 1074) * 2 powi 1"
      by (rule power_int_add) simp
    with pos show ?thesis
      by (simp add: a_def)
  qed
  then have "ilog2 a = - 1074"
    by (intro ilog2_eqI) (simp_all add: a_def)
  then have e: "ulp_exponent a = - 1074"
    using pos by (simp add: ulp_exponent_def)
  have "a / 2 powi ulp_exponent a = of_int 1"
    unfolding e by (simp add: a_def)
  with pos have fixed: "nearest a = a"
    by (rule nearest_whole)
  have "a \<le> 2 powi 0"
    unfolding a_def by (intro power_int_increasing) simp_all
  then have "a < 2 ^ 1024"
    by simp
  with pos fixed show ?thesis
    unfolding a_def [symmetric] by (simp add: is_double_def fl_def Let_def)
qed

lemma double_difference:
  assumes "is_double u" and "is_double w" and "w < u"
  shows "float_ge (fl (u - w)) (2 powi (- 1074))"
proof -
  define p :: rat where "p = 2 powi (- 1074)"
  have pos: "0 < p"
    by (simp add: p_def)
  from assms(1) obtain m where u: "u = of_int m * p"
    unfolding p_def using double_multiple by blast
  from assms(2) obtain n where w: "w = of_int n * p"
    unfolding p_def using double_multiple by blast
  from assms(3) pos have "(of_int n :: rat) < of_int m"
    unfolding u w by (simp add: mult_less_cancel_right_pos)
  then have "n + 1 \<le> m"
    by simp
  then have "(1::rat) \<le> of_int (m - n)"
    by (simp only: of_int_1_le_iff)
  then have "1 * p \<le> of_int (m - n) * p"
    using pos by (intro mult_right_mono) simp_all
  then have "p \<le> u - w"
    unfolding u w by (simp add: algebra_simps)
  then show ?thesis
    unfolding p_def by (intro fl_above_double is_double_least)
qed

lemma float_sub_positive:
  assumes "is_double u" and "is_double w" and "w < u"
  shows "py_lt (PyInt 0) (PyFloat (float_sub (Double u) (Double w)))"
proof -
  have "(0::rat) < 2 powi (- 1074)"
    by simp
  with double_difference [OF assms] show ?thesis
    by (cases "fl (u - w)") (simp_all add: float_sub_def py_lt_def)
qed

lemma float_sub_not_negative:
  assumes "w \<le> u"
  shows "\<not> py_lt (PyFloat (float_sub (Double u) (Double w))) (PyInt 0)"
proof -
  have "float_ge (fl (u - w)) 0"
    using assms by (intro fl_nonneg) simp
  then show ?thesis
    by (cases "fl (u - w)") (auto simp add: float_sub_def py_lt_def)
qed

text \<open>The conversion of an int to a float does not cross a double, and leaves an int
  that is a double as it is; the ints of size \<open>2 ^ 53\<close> or less are doubles.\<close>

lemma to_float_above:
  assumes "to_float (PyInt i) = Inr x" and "is_double w" and "w \<le> of_int i"
  shows "\<exists>u. x = Double u \<and> w \<le> u"
proof -
  have "float_ge (fl (of_int i)) w"
    using assms(2,3) by (rule fl_above_double)
  with assms(1) show ?thesis
    by (cases "fl (of_int i)") (auto simp add: to_float_def)
qed

lemma to_float_below:
  assumes "to_float (PyInt i) = Inr x" and "is_double u" and "of_int i \<le> u"
  shows "\<exists>w. x = Double w \<and> w \<le> u"
proof -
  have "float_le (fl (of_int i)) u"
    using assms(2,3) by (rule fl_below_double)
  with assms(1) show ?thesis
    by (cases "fl (of_int i)") (auto simp add: to_float_def)
qed

lemma to_float_exact: "is_double (of_int i) \<Longrightarrow> to_float (PyInt i) = Inr (Double (of_int i))"
  by (simp add: to_float_def is_double_def)

lemma is_double_pow53: "is_double (2 ^ 53)"
proof -
  have "round_even ((2 ^ 53) / 2 ^ 1) = 2 ^ 52"
    by (rule round_even_eqI) simp_all
  then show ?thesis
    using fl_large [of 1 "2 ^ 53" "2 ^ 52"] by (simp add: is_double_def)
qed

lemma is_double_int:
  assumes "\<bar>i\<bar> \<le> 2 ^ 53"
  shows "is_double (of_int i)"
proof -
  consider "\<bar>i\<bar> < 2 ^ 53" | "i = 2 ^ 53" | "i = - (2 ^ 53)"
    using assms by linarith
  then show ?thesis
  proof cases
    case 1
    then show ?thesis by (rule is_double_of_int)
  next
    case 2
    then show ?thesis using is_double_pow53 by simp
  next
    case 3
    then show ?thesis using is_double_minus [OF is_double_pow53] by simp
  qed
qed

subsection \<open>The branches of route\_task\<close>






subsection \<open>Empty filters\<close>

lemma matched_rule_result_when:
  "matched_rule_result self task (rule\<lparr>rule_when := w\<rparr>) = matched_rule_result self task rule"
  by (simp add: matched_rule_result_def)

lemma find_cheapest_model_rules:
  "find_cheapest_model (self\<lparr>routing_rules := rs\<rparr>) task = find_cheapest_model self task"
  by (simp add: find_cheapest_model_def)

lemma models_get_rules:
  "models_get (self\<lparr>routing_rules := rs\<rparr>) key = models_get self key"
  by (simp add: models_get_def split: option.splits)

lemma matched_rule_result_rules:
  "matched_rule_result (self\<lparr>routing_rules := rs\<rparr>) task rule
     = matched_rule_result self task rule"
  by (auto simp add: matched_rule_result_def Let_def models_get_rules find_cheapest_model_rules
      split: sum.splits)

lemma no_rule_result_rules:
  "no_rule_result (self\<lparr>routing_rules := rs\<rparr>) task = no_rule_result self task"
  by (simp add: no_rule_result_def find_cheapest_model_rules)

lemma apply_rules_rules:
  "apply_rules (self\<lparr>routing_rules := rs\<rparr>) task rules = apply_rules self task rules"
  by (simp add: apply_rules_find matched_rule_result_rules no_rule_result_rules
      split: option.splits)

lemma route_task_rules:
  "route_task (self\<lparr>routing_rules := rs\<rparr>) task =
     (if py_ge (budget_spent_today self) (daily_limit self) then Inr blocked_result
      else apply_rules self task rs)"
  by (simp add: route_task_def apply_rules_rules)

lemma apply_rules_swap:
  assumes "rule_matches task r1 = rule_matches task r2"
      and "matched_rule_result self task r1 = matched_rule_result self task r2"
  shows "apply_rules self task (pre @ r1 # post) = apply_rules self task (pre @ r2 # post)"
  using assms by (induction pre) (simp_all add: apply_rules_find)

lemma route_task_commits:
  assumes "\<not> py_ge (budget_spent_today self) (daily_limit self)"
      and "routing_rules self = pre @ rule # post"
      and "\<forall>earlier \<in> set pre. \<not> rule_matches task earlier"
      and "rule_matches task rule"
  shows "route_task self task = matched_rule_result self task rule"
  using assms by (simp add: route_task_open apply_rules_find find_first)

text \<open>
  Claim C10. A rule whose \<^verbatim>\<open>when.task_type\<close> (or \<^verbatim>\<open>when.complexity\<close>) is present but is the
  empty string is treated as if the key were absent. With the budget check passed, such
  a rule, reached by the loop and not excluded by its other filter, is the rule that
  \<^verbatim>\<open>route_task\<close> commits to, whatever the task's type (or complexity) is. And at any
  position of the rule list, \<^verbatim>\<open>route_task\<close> returns the same decision for the rule with the
  empty filter as for the rule without it.
\<close>

theorem empty_filter_is_no_filter:
  "(\<not> py_ge (budget_spent_today self) (daily_limit self) \<and>
    routing_rules self = pre @ rule # post \<and>
    (\<forall>earlier \<in> set pre. \<not> rule_matches task earlier) \<and>
    when_task_type (get_when rule) = Some [] \<and>
    (when_complexity (get_when rule) = None \<or> when_complexity (get_when rule) = Some [] \<or>
     when_complexity (get_when rule) = Some (complexity task))
    \<longrightarrow> route_task self task = matched_rule_result self task rule) \<and>
   (\<not> py_ge (budget_spent_today self) (daily_limit self) \<and>
    routing_rules self = pre @ rule # post \<and>
    (\<forall>earlier \<in> set pre. \<not> rule_matches task earlier) \<and>
    when_complexity (get_when rule) = Some [] \<and>
    (when_task_type (get_when rule) = None \<or> when_task_type (get_when rule) = Some [] \<or>
     when_task_type (get_when rule) = Some (task_type task))
    \<longrightarrow> route_task self task = matched_rule_result self task rule) \<and>
   route_task (self\<lparr>routing_rules :=
       pre @ rule\<lparr>rule_when := Some \<lparr>when_task_type = Some [], when_complexity = c\<rparr>\<rparr> # post\<rparr>) task
     = route_task (self\<lparr>routing_rules :=
       pre @ rule\<lparr>rule_when := Some \<lparr>when_task_type = None, when_complexity = c\<rparr>\<rparr> # post\<rparr>) task \<and>
   route_task (self\<lparr>routing_rules :=
       pre @ rule\<lparr>rule_when := Some \<lparr>when_task_type = t, when_complexity = Some []\<rparr>\<rparr> # post\<rparr>) task
     = route_task (self\<lparr>routing_rules :=
       pre @ rule\<lparr>rule_when := Some \<lparr>when_task_type = t, when_complexity = None\<rparr>\<rparr> # post\<rparr>) task"
proof -
  have by_type: "route_task self task = matched_rule_result self task rule"
    if "\<not> py_ge (budget_spent_today self) (daily_limit self) \<and>
        routing_rules self = pre @ rule # post \<and>
        (\<forall>earlier \<in> set pre. \<not> rule_matches task earlier) \<and>
        when_task_type (get_when rule) = Some [] \<and>
        (when_complexity (get_when rule) = None \<or> when_complexity (get_when rule) = Some [] \<or>
         when_complexity (get_when rule) = Some (complexity task))"
  proof -
    from that have "rule_matches task rule"
      by (auto simp add: rule_matches_def truthy_def)
    with that show ?thesis
      by (blast intro: route_task_commits)
  qed
  have by_complexity: "route_task self task = matched_rule_result self task rule"
    if "\<not> py_ge (budget_spent_today self) (daily_limit self) \<and>
        routing_rules self = pre @ rule # post \<and>
        (\<forall>earlier \<in> set pre. \<not> rule_matches task earlier) \<and>
        when_complexity (get_when rule) = Some [] \<and>
        (when_task_type (get_when rule) = None \<or> when_task_type (get_when rule) = Some [] \<or>
         when_task_type (get_when rule) = Some (task_type task))"
  proof -
    from that have "rule_matches task rule"
      by (auto simp add: rule_matches_def truthy_def)
    with that show ?thesis
      by (blast intro: route_task_commits)
  qed
  have type_filter:
    "apply_rules self task
       (pre @ rule\<lparr>rule_when := Some \<lparr>when_task_type = Some [], when_complexity = c\<rparr>\<rparr> # post)
     = apply_rules self task
       (pre @ rule\<lparr>rule_when := Some \<lparr>when_task_type = None, when_complexity = c\<rparr>\<rparr> # post)"
    by (rule apply_rules_swap)
       (simp_all add: rule_matches_def get_when_def truthy_def matched_rule_result_when)
  have complexity_filter:
    "apply_rules self task
       (pre @ rule\<lparr>rule_when := Some \<lparr>when_task_type = t, when_complexity = Some []\<rparr>\<rparr> # post)
     = apply_rules self task
       (pre @ rule\<lparr>rule_when := Some \<lparr>when_task_type = t, when_complexity = None\<rparr>\<rparr> # post)"
    by (rule apply_rules_swap)
       (simp_all add: rule_matches_def get_when_def truthy_def matched_rule_result_when)
  have same_type:
    "route_task (self\<lparr>routing_rules :=
       pre @ rule\<lparr>rule_when := Some \<lparr>when_task_type = Some [], when_complexity = c\<rparr>\<rparr> # post\<rparr>) task
     = route_task (self\<lparr>routing_rules :=
       pre @ rule\<lparr>rule_when := Some \<lparr>when_task_type = None, when_complexity = c\<rparr>\<rparr> # post\<rparr>) task"
    using type_filter by (simp only: route_task_rules)
  have same_complexity:
    "route_task (self\<lparr>routing_rules :=
       pre @ rule\<lparr>rule_when := Some \<lparr>when_task_type = t, when_complexity = Some []\<rparr>\<rparr> # post\<rparr>) task
     = route_task (self\<lparr>routing_rules :=
       pre @ rule\<lparr>rule_when := Some \<lparr>when_task_type = t, when_complexity = None\<rparr>\<rparr> # post\<rparr>) task"
    using complexity_filter by (simp only: route_task_rules)
  from by_type by_complexity same_type same_complexity show ?thesis
    by blast
qed

theorem empty_filter_is_no_filter_witness:
  "py_lt (budget_spent_today empty_filter_router) (daily_limit empty_filter_router) \<and>
   routing_rules empty_filter_router = [] @ empty_filter_rule # [catch_all_rule] \<and>
   when_task_type (get_when empty_filter_rule) = Some [] \<and>
   when_complexity (get_when empty_filter_rule) = None \<and>
   task_type chat_task = ''chat'' \<and>
   route_task empty_filter_router chat_task
     = matched_rule_result empty_filter_router chat_task empty_filter_rule \<and>
   decision_get (route_task empty_filter_router chat_task) ''reasoning'' = Inr (Some (VStr ''first'')) \<and>
   task_type image_task = ''image'' \<and>
   decision_get (route_task empty_filter_router image_task) ''reasoning'' = Inr (Some (VStr ''first'')) \<and>
   py_lt (budget_spent_today empty_complexity_router)
     (daily_limit empty_complexity_router) \<and>
   routing_rules empty_complexity_router = [review_rule] @ empty_complexity_rule # [] \<and>
   \<not> rule_matches chat_task review_rule \<and>
   when_complexity (get_when empty_complexity_rule) = Some [] \<and>
   when_task_type (get_when empty_complexity_rule) = Some (task_type chat_task) \<and>
   complexity chat_task = ''medium'' \<and>
   route_task empty_complexity_router chat_task
     = matched_rule_result empty_complexity_router chat_task empty_complexity_rule \<and>
   decision_get (route_task empty_complexity_router chat_task) ''reasoning''
     = Inr (Some (VStr ''chat of any complexity''))"
proof -
  have below1: "py_lt (budget_spent_today empty_filter_router) (daily_limit empty_filter_router)"
    by (simp add: empty_filter_router_def py_lt_def)
  then have gate1:
    "\<not> py_ge (budget_spent_today empty_filter_router) (daily_limit empty_filter_router)"
    by (rule py_lt_not_ge)
  have rules1: "routing_rules empty_filter_router = [] @ empty_filter_rule # [catch_all_rule]"
    by (simp add: empty_filter_router_def)
  have none1: "\<forall>earlier \<in> set []. \<not> rule_matches task earlier" for task
    by simp
  have filter1: "when_task_type (get_when empty_filter_rule) = Some []"
    "when_complexity (get_when empty_filter_rule) = None"
    by (simp_all add: get_when_def empty_filter_rule_def)
  have tasks: "task_type chat_task = ''chat''" "task_type image_task = ''image''"
    "complexity chat_task = ''medium''"
    by (simp_all add: chat_task_def image_task_def)
  have chat: "route_task empty_filter_router chat_task
                = matched_rule_result empty_filter_router chat_task empty_filter_rule"
    using empty_filter_is_no_filter
      [where self = empty_filter_router and pre = "[]" and rule = empty_filter_rule
         and post = "[catch_all_rule]" and task = chat_task]
      gate1 rules1 none1 filter1
    by blast
  have image: "route_task empty_filter_router image_task
                = matched_rule_result empty_filter_router image_task empty_filter_rule"
    using empty_filter_is_no_filter
      [where self = empty_filter_router and pre = "[]" and rule = empty_filter_rule
         and post = "[catch_all_rule]" and task = image_task]
      gate1 rules1 none1 filter1
    by blast
  have first: "decision_get (matched_rule_result empty_filter_router task empty_filter_rule)
                 ''reasoning'' = Inr (Some (VStr ''first''))" for task
    by (simp add: matched_rule_result_def empty_filter_rule_def empty_filter_router_def Let_def
        py_sub_def decision_get_def)
  have below2:
    "py_lt (budget_spent_today empty_complexity_router) (daily_limit empty_complexity_router)"
    by (simp add: empty_complexity_router_def py_lt_def)
  then have gate2:
    "\<not> py_ge (budget_spent_today empty_complexity_router) (daily_limit empty_complexity_router)"
    by (rule py_lt_not_ge)
  have rules2: "routing_rules empty_complexity_router = [review_rule] @ empty_complexity_rule # []"
    by (simp add: empty_complexity_router_def)
  have skipped: "\<not> rule_matches chat_task review_rule"
    by (simp add: rule_matches_def get_when_def review_rule_def chat_task_def truthy_def)
  then have none2: "\<forall>earlier \<in> set [review_rule]. \<not> rule_matches chat_task earlier"
    by simp
  have filter2: "when_complexity (get_when empty_complexity_rule) = Some []"
    "when_task_type (get_when empty_complexity_rule) = Some (task_type chat_task)"
    by (simp_all add: get_when_def empty_complexity_rule_def chat_task_def)
  have any: "route_task empty_complexity_router chat_task
               = matched_rule_result empty_complexity_router chat_task empty_complexity_rule"
    using empty_filter_is_no_filter
      [where self = empty_complexity_router and pre = "[review_rule]"
         and rule = empty_complexity_rule and post = "[]" and task = chat_task]
      gate2 rules2 none2 filter2
    by blast
  have second: "decision_get (matched_rule_result empty_complexity_router chat_task
                  empty_complexity_rule) ''reasoning'' = Inr (Some (VStr ''chat of any complexity''))"
    by (simp add: matched_rule_result_def empty_complexity_rule_def empty_complexity_router_def
        Let_def py_sub_def decision_get_def)
  from below1 rules1 filter1 tasks chat image first below2 rules2 skipped filter2 any second
  show ?thesis
    by simp
qed

subsection \<open>The cheapest capable model\<close>

text \<open>The loop of \<^verbatim>\<open>min\<close> returns the earliest item of least key: every item before it
  has a strictly larger key, every item after it a key at least as large.\<close>

lemma min_loop_earliest:
  assumes "\<forall>y \<in> set p1. key best < key y" and "\<forall>y \<in> set p2. key best \<le> key y"
  shows "\<exists>ps ss. p1 @ best # p2 @ xs = ps @ min_loop key best xs # ss \<and>
           (\<forall>y \<in> set ps. key (min_loop key best xs) < key y) \<and>
           (\<forall>y \<in> set ss. key (min_loop key best xs) \<le> key y)"
  using assms
proof (induction xs arbitrary: best p1 p2)
  case Nil
  then show ?case by auto
next
  case (Cons x xs)
  show ?case
  proof (cases "key x < key best")
    case True
    have before: "\<forall>y \<in> set (p1 @ best # p2). key x < key y"
      using True Cons.prems by fastforce
    have after: "\<forall>y \<in> set []. key x \<le> key y"
      by simp
    from Cons.IH [OF before after] True show ?thesis
      by simp
  next
    case False
    have after: "\<forall>y \<in> set (p2 @ [x]). key best \<le> key y"
      using False Cons.prems(2) by auto
    from Cons.IH [OF Cons.prems(1) after] False show ?thesis
      by simp
  qed
qed

lemma py_min_None: "py_min key xs = None \<longleftrightarrow> xs = []"
  by (simp add: py_min_def split: list.splits)

lemma py_min_earliest:
  assumes "py_min key xs = Some m"
  shows "\<exists>ps ss. xs = ps @ m # ss \<and> (\<forall>y \<in> set ps. key m < key y) \<and>
           (\<forall>y \<in> set ss. key m \<le> key y)"
proof (cases xs)
  case Nil
  with assms show ?thesis by (simp add: py_min_def)
next
  case (Cons x rest)
  with assms have m: "m = min_loop key x rest"
    by (simp add: py_min_def)
  have "\<exists>ps ss. [] @ x # [] @ rest = ps @ min_loop key x rest # ss \<and>
           (\<forall>y \<in> set ps. key (min_loop key x rest) < key y) \<and>
           (\<forall>y \<in> set ss. key (min_loop key x rest) \<le> key y)"
    by (rule min_loop_earliest) simp_all
  with Cons m show ?thesis by simp
qed

text \<open>
  Claim C6. \<^verbatim>\<open>find_cheapest_model\<close> returns none when no registered model's types contain
  the task's type. Otherwise it returns a registered model whose types contain the task's
  type and whose cost is least among the capable models; among several of least cost it
  is the earliest in the registry's order. The result depends only on the registry and
  on the task's type, so repeated calls with unchanged state return the same model.
\<close>

theorem find_cheapest_model_cheapest:
  "(capable_models self task = [] \<longrightarrow> find_cheapest_model self task = None) \<and>
   (capable_models self task \<noteq> [] \<longrightarrow>
      (\<exists>m ps ss. find_cheapest_model self task = Some m \<and>
         m \<in> set (map snd (models self)) \<and> task_type task \<in> set (type m) \<and>
         (\<forall>other \<in> set (capable_models self task).
            cost_per_1m_tokens m \<le> cost_per_1m_tokens other) \<and>
         capable_models self task = ps @ m # ss \<and>
         (\<forall>earlier \<in> set ps. cost_per_1m_tokens m < cost_per_1m_tokens earlier))) \<and>
   (models other_self = models self \<and> task_type other_task = task_type task \<longrightarrow>
      find_cheapest_model other_self other_task = find_cheapest_model self task)"
proof -
  have unfolded: "find_cheapest_model self task = py_min cost_per_1m_tokens (capable_models self task)"
    by (simp add: find_cheapest_model_def capable_models_def)
  have none: "find_cheapest_model self task = None" if "capable_models self task = []"
    using that by (simp add: unfolded py_min_None)
  have some: "\<exists>m ps ss. find_cheapest_model self task = Some m \<and>
         m \<in> set (map snd (models self)) \<and> task_type task \<in> set (type m) \<and>
         (\<forall>other \<in> set (capable_models self task).
            cost_per_1m_tokens m \<le> cost_per_1m_tokens other) \<and>
         capable_models self task = ps @ m # ss \<and>
         (\<forall>earlier \<in> set ps. cost_per_1m_tokens m < cost_per_1m_tokens earlier)"
    if nonempty: "capable_models self task \<noteq> []"
  proof -
    from nonempty obtain m where m: "find_cheapest_model self task = Some m"
      using py_min_None [of cost_per_1m_tokens "capable_models self task"] unfolded by auto
    then have "py_min cost_per_1m_tokens (capable_models self task) = Some m"
      by (simp add: unfolded)
    from py_min_earliest [OF this]
    obtain ps ss where split: "capable_models self task = ps @ m # ss"
      and before: "\<forall>y \<in> set ps. cost_per_1m_tokens m < cost_per_1m_tokens y"
      and after: "\<forall>y \<in> set ss. cost_per_1m_tokens m \<le> cost_per_1m_tokens y"
      by blast
    from split have member: "m \<in> set (capable_models self task)"
      by simp
    then have registered: "m \<in> set (map snd (models self))"
      and capable: "task_type task \<in> set (type m)"
      by (simp_all add: capable_models_def)
    have least: "\<forall>other \<in> set (capable_models self task).
            cost_per_1m_tokens m \<le> cost_per_1m_tokens other"
      using split before after by fastforce
    from m registered capable least split before show ?thesis
      by blast
  qed
  have stable: "find_cheapest_model other_self other_task = find_cheapest_model self task"
    if "models other_self = models self \<and> task_type other_task = task_type task"
    using that by (simp add: find_cheapest_model_def)
  from none some stable show ?thesis
    by blast
qed

theorem find_cheapest_model_cheapest_witness:
  "capable_models tie_router chat_task = [model_a] @ model_b # [model_d] \<and>
   find_cheapest_model tie_router chat_task = Some model_b \<and>
   cost_per_1m_tokens model_b < cost_per_1m_tokens model_a \<and>
   cost_per_1m_tokens model_b \<le> cost_per_1m_tokens model_d \<and>
   find_cheapest_model (tie_router\<lparr>routing_rules := [chat_rule], budget_spent_today := PyFloat (Double 7)\<rparr>) chat_task = Some model_b \<and>
   capable_models tie_router image_task = [] \<and>
   find_cheapest_model tie_router image_task = None"
proof -
  have caps: "capable_models tie_router chat_task = [model_a] @ model_b # [model_d]"
    by (simp add: capable_models_def tie_router_def chat_task_def model_a_def model_b_def
        model_d_def)
  have costs: "cost_per_1m_tokens model_b < cost_per_1m_tokens model_a"
    "cost_per_1m_tokens model_b \<le> cost_per_1m_tokens model_d"
    by (simp_all add: model_a_def model_b_def model_d_def)
  have chosen: "find_cheapest_model tie_router chat_task = Some model_b"
    by (simp add: find_cheapest_model_def tie_router_def chat_task_def model_a_def model_b_def
        model_d_def py_min_def)
  have same_registry: "models (tie_router\<lparr>routing_rules := [chat_rule], budget_spent_today := PyFloat (Double 7)\<rparr>) = models tie_router"
    by simp
  have no_caps: "capable_models tie_router image_task = []"
    by (simp add: capable_models_def tie_router_def image_task_def model_a_def model_b_def
        model_d_def)
  note chat = find_cheapest_model_cheapest
    [of tie_router chat_task "tie_router\<lparr>routing_rules := [chat_rule], budget_spent_today := PyFloat (Double 7)\<rparr>" chat_task]
  note image = find_cheapest_model_cheapest [of tie_router image_task tie_router image_task]
  have stable: "find_cheapest_model (tie_router\<lparr>routing_rules := [chat_rule], budget_spent_today := PyFloat (Double 7)\<rparr>) chat_task
                  = Some model_b"
    using chat same_registry chosen by simp
  have none: "find_cheapest_model tie_router image_task = None"
    using image no_caps by blast
  from caps costs chosen stable no_caps none show ?thesis
    by simp
qed

subsection \<open>The remaining budget\<close>

text \<open>The difference of line 166 when the budget check has passed: never negative, and
  positive when every int operand is a double, so that its conversion is exact.\<close>

lemma to_float_double: "to_float (PyInt i) = Inr x \<Longrightarrow> \<exists>u. x = Double u"
  by (cases "fl (of_int i)") (auto simp add: to_float_def)

lemma py_sub_not_negative:
  assumes "valid_number a" and "valid_number b" and "\<not> py_ge b a"
      and "py_sub a b = Inr r"
  shows "\<not> py_lt r (PyInt 0)"
proof (cases a)
  case a: (PyInt i)
  show ?thesis
  proof (cases b)
    case (PyInt j)
    with a assms(3,4) show ?thesis
      by (auto simp add: py_sub_def py_lt_def)
  next
    case b: (PyFloat y)
    from assms(4) a b obtain x where x: "to_float (PyInt i) = Inr x"
      and r: "r = PyFloat (float_sub x y)"
      by (auto simp add: py_sub_def as_floats_def to_float_def split: sum.splits)
    show ?thesis
    proof (cases y)
      case (Double w)
      with assms(2,3) a b have "is_double w" and "w \<le> of_int i"
        by (simp_all add: valid_number_def)
      with x obtain u where "x = Double u" and "w \<le> u"
        using to_float_above by blast
      with r Double show ?thesis
        using float_sub_not_negative by simp
    next
      case (Infinity s)
      with assms(3) a b have "\<not> s"
        by simp
      moreover from x obtain u where "x = Double u"
        using to_float_double by blast
      ultimately show ?thesis
        using r Infinity by (simp add: float_sub_def py_lt_def)
    next
      case NaN
      moreover from x obtain u where "x = Double u"
        using to_float_double by blast
      ultimately show ?thesis
        using r by (simp add: float_sub_def py_lt_def)
    qed
  qed
next
  case a: (PyFloat x)
  from assms(4) a obtain y where y: "to_float b = Inr y"
    and r: "r = PyFloat (float_sub x y)"
    by (auto simp add: py_sub_def as_floats_def to_float_def split: sum.splits number.splits)
  show ?thesis
  proof (cases x)
    case x: (Double u)
    with assms(1) a have u: "is_double u"
      by (simp add: valid_number_def)
    show ?thesis
    proof (cases b)
      case (PyInt j)
      with assms(3) a x have "of_int j \<le> u"
        by simp
      with y PyInt u obtain w where "y = Double w" and "w \<le> u"
        using to_float_below by blast
      with r x show ?thesis
        using float_sub_not_negative by simp
    next
      case b: (PyFloat y')
      with y have same: "y' = y"
        by (simp add: to_float_def)
      show ?thesis
      proof (cases y)
        case (Double w)
        with assms(3) a b x same have "w \<le> u"
          by simp
        with r x Double show ?thesis
          using float_sub_not_negative by simp
      next
        case (Infinity s)
        with assms(3) a b x same have "\<not> s"
          by simp
        with r x Infinity show ?thesis
          by (simp add: float_sub_def py_lt_def)
      next
        case NaN
        with r x show ?thesis
          by (simp add: float_sub_def py_lt_def)
      qed
    qed
  next
    case x: (Infinity s)
    have s: "s \<or> y = NaN"
    proof (cases b)
      case (PyInt j)
      with assms(3) a x show ?thesis by simp
    next
      case (PyFloat y')
      with y have "y' = y" by (simp add: to_float_def)
      with assms(3) a x PyFloat show ?thesis by (cases y) simp_all
    qed
    with r x show ?thesis
      by (cases y) (auto simp add: float_sub_def py_lt_def)
  next
    case NaN
    with r show ?thesis
      by (simp add: float_sub_def py_lt_def)
  qed
qed

lemma py_sub_positive:
  assumes "valid_number a" and "valid_number b" and "py_lt b a"
      and "\<forall>i. a = PyInt i \<or> b = PyInt i \<longrightarrow> is_double (of_int i)"
      and "py_sub a b = Inr r"
  shows "py_lt (PyInt 0) r"
proof (cases a)
  case a: (PyInt i)
  with assms(4) have x: "to_float a = Inr (Double (of_int i))" and i: "is_double (of_int i)"
    by (simp_all add: to_float_exact)
  show ?thesis
  proof (cases b)
    case (PyInt j)
    with a assms(3,5) show ?thesis
      by (auto simp add: py_sub_def py_lt_def)
  next
    case b: (PyFloat y)
    with assms(5) a x have r: "r = PyFloat (float_sub (Double (of_int i)) y)"
      by (auto simp add: py_sub_def as_floats_def to_float_def)
    show ?thesis
    proof (cases y)
      case (Double w)
      with assms(2,3) a b have "is_double w" and "w < of_int i"
        by (simp_all add: valid_number_def py_lt_def)
      with i r Double show ?thesis
        using float_sub_positive by simp
    next
      case (Infinity s)
      with assms(3) a b r show ?thesis
        by (simp add: py_lt_def float_sub_def)
    next
      case NaN
      with assms(3) b show ?thesis
        by (simp add: py_lt_def)
    qed
  qed
next
  case a: (PyFloat x)
  show ?thesis
  proof (cases b)
    case b: (PyInt j)
    with assms(4) have j: "is_double (of_int j)"
      by simp
    with assms(5) a b have r: "r = PyFloat (float_sub x (Double (of_int j)))"
      by (auto simp add: py_sub_def as_floats_def to_float_def is_double_def)
    show ?thesis
    proof (cases x)
      case (Double u)
      with assms(1,3) a b have "is_double u" and "of_int j < u"
        by (simp_all add: valid_number_def py_lt_def)
      with j r Double show ?thesis
        using float_sub_positive by simp
    next
      case (Infinity s)
      with assms(3) a b r show ?thesis
        by (simp add: py_lt_def float_sub_def)
    next
      case NaN
      with assms(3) a show ?thesis
        by (simp add: py_lt_def)
    qed
  next
    case b: (PyFloat y)
    with assms(5) a have r: "r = PyFloat (float_sub x y)"
      by (auto simp add: py_sub_def as_floats_def to_float_def)
    show ?thesis
    proof (cases "\<exists>u w. x = Double u \<and> y = Double w")
      case True
      then obtain u w where x: "x = Double u" and y: "y = Double w"
        by blast
      with assms(1,2,3) a b have "is_double u" and "is_double w" and "w < u"
        by (simp_all add: valid_number_def py_lt_def)
      with r x y show ?thesis
        using float_sub_positive by simp
    next
      case False
      with assms(3) a b r show ?thesis
        by (cases x; cases y) (auto simp add: py_lt_def float_sub_def)
    qed
  qed
qed

text \<open>The doubles and roundings of the examples.\<close>

lemma fl_narrow_limit: "fl 13510798882111489 = Double 13510798882111488"
proof -
  have "(13510798882111489::rat) / 2 ^ 1 = of_int 6755399441055744 + 1 / 2"
    by simp
  then have "round_even (13510798882111489 / 2 ^ 1) = 6755399441055744"
    by (simp only: round_even_half) simp
  then show ?thesis
    using fl_large [of 1 13510798882111489 6755399441055744] by simp
qed

lemma is_double_narrow_spent: "is_double 13510798882111488"
proof -
  have "round_even (13510798882111488 / 2 ^ 1) = 6755399441055744"
    by (rule round_even_eqI) simp_all
  then show ?thesis
    using fl_large [of 1 13510798882111488 6755399441055744] by (simp add: is_double_def)
qed

text \<open>
  Claim C9, as stated, has the \<^verbatim>\<open>budget_remaining\<close> of the rule-match branch strictly
  positive. The field is \<^verbatim>\<open>daily_limit - budget_spent_today\<close>, which Python computes in
  floats when one of the two is a float, after converting the other. With a daily limit
  of \<open>3 * 2 ^ 52 + 1\<close>, an int, and \<open>3 * 2 ^ 52\<close> spent, a float, the budget check passes,
  because \<^verbatim>\<open>>=\<close> compares the exact values, and the rule for chat tasks matches; but the
  limit is converted to the float \<open>3 * 2 ^ 52\<close>, and the difference is \<open>0.0\<close>.
\<close>

theorem rule_match_budget_remaining_counterexample:
  "daily_limit narrow_router = PyInt 13510798882111489 \<and>
   budget_spent_today narrow_router = PyFloat (Double 13510798882111488) \<and>
   valid_number (budget_spent_today narrow_router) \<and>
   py_lt (budget_spent_today narrow_router) (daily_limit narrow_router) \<and>
   find (rule_matches chat_task) (routing_rules narrow_router) = Some chat_rule \<and>
   route_task narrow_router chat_task = matched_rule_result narrow_router chat_task chat_rule \<and>
   decision_get (route_task narrow_router chat_task) ''status'' = Inr (Some (VStr ''routed'')) \<and>
   decision_get (route_task narrow_router chat_task) ''budget_remaining''
     = Inr (Some (VNumber (PyFloat (Double 0)))) \<and>
   \<not> py_lt (PyInt 0) (PyFloat (Double 0))"
proof -
  have below: "py_lt (budget_spent_today narrow_router) (daily_limit narrow_router)"
    by (simp add: narrow_router_def py_lt_def)
  have matched: "find (rule_matches chat_task) (routing_rules narrow_router) = Some chat_rule"
    by (simp add: narrow_router_def two_rule_router_def rule_matches_def get_when_def
        chat_rule_def chat_task_def truthy_def)
  have committed: "route_task narrow_router chat_task
                     = matched_rule_result narrow_router chat_task chat_rule"
    using below matched by (simp add: route_task_open py_lt_not_ge apply_rules_find)
  have "py_sub (daily_limit narrow_router) (budget_spent_today narrow_router)
          = Inr (PyFloat (Double 0))"
    by (simp add: narrow_router_def py_sub_def as_floats_def to_float_def fl_narrow_limit
        float_sub_def fl_zero)
  then have fields:
    "decision_get (matched_rule_result narrow_router chat_task chat_rule) ''status''
       = Inr (Some (VStr ''routed''))"
    "decision_get (matched_rule_result narrow_router chat_task chat_rule) ''budget_remaining''
       = Inr (Some (VNumber (PyFloat (Double 0))))"
    by (simp_all add: matched_rule_result_def Let_def decision_get_def)
  have valid: "valid_number (budget_spent_today narrow_router)"
    by (simp add: narrow_router_def valid_number_def is_double_narrow_spent)
  from below matched committed fields valid show ?thesis
    by (simp add: narrow_router_def py_lt_def)
qed

text \<open>
  Claim C9, amended. A decision of \<^verbatim>\<open>route_task\<close> has a \<^verbatim>\<open>budget_remaining\<close> only when it is
  returned through the rule-match branch, and then the field is Python's
  \<^verbatim>\<open>daily_limit - budget_spent_today\<close>, computed after the budget check has passed. That
  number is never negative. It is strictly positive when \<^verbatim>\<open>budget_spent_today < daily_limit\<close>
  and every int among the two is of size \<open>2 ^ 53\<close> or less, so that Python converts it to a
  float exactly; two ints, which are subtracted exactly, give a positive int at any size.
\<close>

theorem rule_match_budget_remaining:
  "(\<not> py_ge (budget_spent_today self) (daily_limit self) \<and>
    find (rule_matches task) (routing_rules self) = Some rule \<longrightarrow>
      route_task self task = matched_rule_result self task rule \<and>
      (\<forall>remaining.
         py_sub (daily_limit self) (budget_spent_today self) = Inr remaining \<longrightarrow>
         decision_get (route_task self task) ''budget_remaining''
           = Inr (Some (VNumber remaining)))) \<and>
   (\<forall>v. decision_get (route_task self task) ''budget_remaining'' = Inr (Some v) \<longrightarrow>
      \<not> py_ge (budget_spent_today self) (daily_limit self) \<and>
      (\<exists>rule. find (rule_matches task) (routing_rules self) = Some rule) \<and>
      (\<exists>remaining.
         py_sub (daily_limit self) (budget_spent_today self) = Inr remaining \<and>
         v = VNumber remaining)) \<and>
   (\<forall>remaining.
      valid_number (daily_limit self) \<and> valid_number (budget_spent_today self) \<and>
      \<not> py_ge (budget_spent_today self) (daily_limit self) \<and>
      py_sub (daily_limit self) (budget_spent_today self) = Inr remaining \<longrightarrow>
      \<not> py_lt remaining (PyInt 0)) \<and>
   (\<forall>remaining.
      valid_number (daily_limit self) \<and> valid_number (budget_spent_today self) \<and>
      py_lt (budget_spent_today self) (daily_limit self) \<and>
      (\<forall>i. daily_limit self = PyInt i \<or> budget_spent_today self = PyInt i
           \<longrightarrow> \<bar>i\<bar> \<le> 2 ^ 53) \<and>
      py_sub (daily_limit self) (budget_spent_today self) = Inr remaining \<longrightarrow>
      py_lt (PyInt 0) remaining) \<and>
   (\<forall>i j. daily_limit self = PyInt i \<and> budget_spent_today self = PyInt j \<and>
      \<not> py_ge (budget_spent_today self) (daily_limit self) \<longrightarrow>
      py_sub (daily_limit self) (budget_spent_today self) = Inr (PyInt (i - j)) \<and> 0 < i - j)"
proof -
  have branch:
    "route_task self task = matched_rule_result self task rule \<and>
     (\<forall>remaining.
        py_sub (daily_limit self) (budget_spent_today self) = Inr remaining \<longrightarrow>
        decision_get (route_task self task) ''budget_remaining''
          = Inr (Some (VNumber remaining)))"
    if "\<not> py_ge (budget_spent_today self) (daily_limit self)"
      and "find (rule_matches task) (routing_rules self) = Some rule"
    using that
    by (simp add: route_task_open apply_rules_find matched_rule_result_def Let_def
        decision_get_def)
  have field:
    "\<not> py_ge (budget_spent_today self) (daily_limit self) \<and>
     (\<exists>rule. find (rule_matches task) (routing_rules self) = Some rule) \<and>
     (\<exists>remaining.
        py_sub (daily_limit self) (budget_spent_today self) = Inr remaining \<and>
        v = VNumber remaining)"
    if "decision_get (route_task self task) ''budget_remaining'' = Inr (Some v)" for v
  proof -
    from that have gate: "\<not> py_ge (budget_spent_today self) (daily_limit self)"
      by (auto simp add: route_task_def blocked_result_def decision_get_def)
    with that have found:
      "decision_get
         (case find (rule_matches task) (routing_rules self) of
            None \<Rightarrow> Inr (no_rule_result self task)
          | Some rule \<Rightarrow> matched_rule_result self task rule) ''budget_remaining''
       = Inr (Some v)"
      by (simp add: route_task_open apply_rules_find)
    then obtain rule where rule: "find (rule_matches task) (routing_rules self) = Some rule"
      by (cases "find (rule_matches task) (routing_rules self)")
         (auto simp add: no_rule_result_def Let_def decision_get_def)
    with found have "\<exists>remaining.
        py_sub (daily_limit self) (budget_spent_today self) = Inr remaining \<and>
        v = VNumber remaining"
      by (cases "py_sub (daily_limit self) (budget_spent_today self)")
         (auto simp add: matched_rule_result_def Let_def decision_get_def)
    with gate rule show ?thesis
      by blast
  qed
  have not_negative: "\<not> py_lt remaining (PyInt 0)"
    if "valid_number (daily_limit self) \<and> valid_number (budget_spent_today self) \<and>
        \<not> py_ge (budget_spent_today self) (daily_limit self) \<and>
        py_sub (daily_limit self) (budget_spent_today self) = Inr remaining" for remaining
    using that py_sub_not_negative by blast
  have positive: "py_lt (PyInt 0) remaining"
    if "valid_number (daily_limit self) \<and> valid_number (budget_spent_today self) \<and>
        py_lt (budget_spent_today self) (daily_limit self) \<and>
        (\<forall>i. daily_limit self = PyInt i \<or> budget_spent_today self = PyInt i
             \<longrightarrow> \<bar>i\<bar> \<le> 2 ^ 53) \<and>
        py_sub (daily_limit self) (budget_spent_today self) = Inr remaining" for remaining
  proof -
    from that have "\<forall>i. daily_limit self = PyInt i \<or> budget_spent_today self = PyInt i
                      \<longrightarrow> is_double (of_int i)"
      using is_double_int by blast
    with that show ?thesis
      using py_sub_positive by blast
  qed
  have ints:
    "py_sub (daily_limit self) (budget_spent_today self) = Inr (PyInt (i - j)) \<and> 0 < i - j"
    if "daily_limit self = PyInt i \<and> budget_spent_today self = PyInt j \<and>
        \<not> py_ge (budget_spent_today self) (daily_limit self)" for i j
    using that by (auto simp add: py_sub_def)
  show ?thesis
    apply (intro conjI allI impI)
    subgoal using branch by blast
    subgoal using branch by blast
    subgoal using field by blast
    subgoal using field by blast
    subgoal using field by blast
    subgoal using not_negative by blast
    subgoal using positive by blast
    subgoal using ints by blast
    subgoal using ints by blast
    done
qed

theorem rule_match_budget_remaining_witness:
  "py_lt (budget_spent_today two_rule_router) (daily_limit two_rule_router) \<and>
   find (rule_matches chat_task) (routing_rules two_rule_router) = Some chat_rule \<and>
   daily_limit two_rule_router = PyInt 50000 \<and>
   budget_spent_today two_rule_router = PyInt 0 \<and>
   py_sub (daily_limit two_rule_router) (budget_spent_today two_rule_router)
     = Inr (PyInt (50000 - 0)) \<and>
   decision_get (route_task two_rule_router chat_task) ''budget_remaining''
     = Inr (Some (VNumber (PyInt 50000))) \<and>
   valid_number (daily_limit spending_router) \<and>
   valid_number (budget_spent_today spending_router) \<and>
   py_lt (budget_spent_today spending_router) (daily_limit spending_router) \<and>
   find (rule_matches chat_task) (routing_rules spending_router) = Some chat_rule \<and>
   py_sub (daily_limit spending_router) (budget_spent_today spending_router)
     = Inr (PyFloat (Double 49997)) \<and>
   decision_get (route_task spending_router chat_task) ''budget_remaining''
     = Inr (Some (VNumber (PyFloat (Double 49997)))) \<and>
   py_lt (PyInt 0) (PyFloat (Double 49997)) \<and>
   \<not> py_lt (PyFloat (Double 49997)) (PyInt 0)"
proof -
  have below1: "py_lt (budget_spent_today two_rule_router) (daily_limit two_rule_router)"
    by (simp add: two_rule_router_def py_lt_def)
  then have gate1: "\<not> py_ge (budget_spent_today two_rule_router) (daily_limit two_rule_router)"
    by (rule py_lt_not_ge)
  have matched1: "find (rule_matches chat_task) (routing_rules two_rule_router) = Some chat_rule"
    by (simp add: two_rule_router_def rule_matches_def get_when_def chat_rule_def chat_task_def
        truthy_def)
  have ints: "daily_limit two_rule_router = PyInt 50000"
    "budget_spent_today two_rule_router = PyInt 0"
    by (simp_all add: two_rule_router_def)
  note inst1 = rule_match_budget_remaining [of two_rule_router chat_task chat_rule]
  from inst1 ints gate1
  have sub1: "py_sub (daily_limit two_rule_router) (budget_spent_today two_rule_router)
                = Inr (PyInt (50000 - 0))"
    by blast
  with inst1 gate1 matched1
  have field1: "decision_get (route_task two_rule_router chat_task) ''budget_remaining''
                  = Inr (Some (VNumber (PyInt (50000 - 0))))"
    by blast
  have valid2: "valid_number (daily_limit spending_router)"
    "valid_number (budget_spent_today spending_router)"
    using is_double_of_int [of 3]
    by (simp_all add: spending_router_def two_rule_router_def valid_number_def)
  have below2: "py_lt (budget_spent_today spending_router) (daily_limit spending_router)"
    by (simp add: spending_router_def two_rule_router_def py_lt_def)
  then have gate2: "\<not> py_ge (budget_spent_today spending_router) (daily_limit spending_router)"
    by (rule py_lt_not_ge)
  have matched2: "find (rule_matches chat_task) (routing_rules spending_router) = Some chat_rule"
    by (simp add: spending_router_def two_rule_router_def rule_matches_def get_when_def
        chat_rule_def chat_task_def truthy_def)
  have small: "\<forall>i. daily_limit spending_router = PyInt i \<or>
                   budget_spent_today spending_router = PyInt i \<longrightarrow> \<bar>i\<bar> \<le> 2 ^ 53"
    by (simp add: spending_router_def two_rule_router_def)
  have sub2: "py_sub (daily_limit spending_router) (budget_spent_today spending_router)
                = Inr (PyFloat (Double 49997))"
    by (simp add: spending_router_def two_rule_router_def py_sub_def as_floats_def to_float_def
        float_sub_def fl_numeral)
  note inst2 = rule_match_budget_remaining [of spending_router chat_task chat_rule]
  from inst2 gate2 matched2 sub2
  have field2: "decision_get (route_task spending_router chat_task) ''budget_remaining''
                  = Inr (Some (VNumber (PyFloat (Double 49997))))"
    by blast
  from inst2 valid2 below2 small sub2
  have positive: "py_lt (PyInt 0) (PyFloat (Double 49997))"
    by blast
  from inst2 valid2 gate2 sub2
  have not_negative: "\<not> py_lt (PyFloat (Double 49997)) (PyInt 0)"
    by blast
  from below1 matched1 ints sub1 field1 valid2 below2 matched2 sub2 field2 positive not_negative
  show ?thesis
    by simp
qed

subsection \<open>track\_cost\<close>

text \<open>What a call for a registered model computes, when the quotient and the cost have
  doubles: the float sum of what was spent and the float product.\<close>

lemma track_cost_known:
  assumes "map_of (models self) model_id = Some model"
      and "fl (of_int tokens_used / 1000000) = Double ratio"
      and "fl (of_int (cost_per_1m_tokens model)) = Double price"
      and "to_float (budget_spent_today self) = Inr spent"
  shows "track_cost self model_id tokens_used
           = Inr (self\<lparr>budget_spent_today := PyFloat (float_add spent (fl (ratio * price)))\<rparr>)"
  using assms
  by (simp add: track_cost_def int_true_divide_def py_mul_def py_add_def as_floats_def
      to_float_def split: number.splits)

lemma int_true_divide_raises: "int_true_divide a 1000000 = Inl e \<Longrightarrow> e = OverflowError"
  by (simp add: int_true_divide_def split: pyfloat.splits)

lemma as_floats_raises: "as_floats operation a b = Inl e \<Longrightarrow> e = OverflowError"
  by (auto simp add: as_floats_def dest: to_float_raises split: sum.splits)

lemma track_cost_raises:
  assumes "track_cost self model_id tokens_used = Inl e"
  shows "e = OverflowError"
  using assms
  by (auto simp add: track_cost_def py_mul_def py_add_def
      dest: int_true_divide_raises as_floats_raises
      split: option.splits sum.splits number.splits)



text \<open>The roundings of the examples.\<close>

lemma fl_large_sum: "fl 9007199254740995 = Double 9007199254740996"
proof -
  have "(9007199254740995::rat) / 2 ^ 1 = of_int 4503599627370497 + 1 / 2"
    by simp
  then have "round_even (9007199254740995 / 2 ^ 1) = 4503599627370498"
    by (simp only: round_even_half) simp
  then show ?thesis
    using fl_large [of 1 9007199254740995 4503599627370498] by simp
qed







text \<open>Adding a float that is not negative to a double does not give less, and no number
  but \<^verbatim>\<open>nan\<close> is below itself.\<close>

lemma float_add_not_below:
  assumes "is_double s" and "float_ge c 0"
  shows "float_ge (float_add (Double s) c) s"
proof (cases c)
  case (Double d)
  with assms(2) have "s \<le> s + d"
    by simp
  with assms(1) have "float_ge (fl (s + d)) s"
    by (rule fl_above_double)
  with Double show ?thesis
    by simp
next
  case (Infinity positive)
  with assms(2) show ?thesis
    by simp
next
  case NaN
  with assms(2) show ?thesis
    by simp
qed

lemma py_ge_refl: "n \<noteq> PyFloat NaN \<Longrightarrow> py_ge n n"
proof (cases n)
  case (PyInt i)
  then show ?thesis by simp
next
  case (PyFloat x)
  assume "n \<noteq> PyFloat NaN"
  with PyFloat show ?thesis by (cases x) simp_all
qed

lemma track_cost_not_below:
  assumes "0 \<le> tokens_used"
      and "\<forall>model. map_of (models self) model_id = Some model
             \<longrightarrow> 0 \<le> cost_per_1m_tokens model"
      and "valid_number (budget_spent_today self)"
      and "\<forall>i. budget_spent_today self = PyInt i \<longrightarrow> is_double (of_int i)"
      and "budget_spent_today self \<noteq> PyFloat NaN"
      and "budget_spent_today self \<noteq> PyFloat (Infinity False)"
      and "track_cost self model_id tokens_used = Inr after"
  shows "py_ge (budget_spent_today after) (budget_spent_today self)"
proof (cases "map_of (models self) model_id")
  case None
  with assms(7) have "after = self"
    by (simp add: track_cost_def)
  with assms(5) show ?thesis
    by (simp add: py_ge_refl)
next
  case (Some model)
  with assms(2) have cost: "0 \<le> cost_per_1m_tokens model"
    by simp
  from assms(7) Some obtain ratio where ratio: "fl (of_int tokens_used / 1000000) = Double ratio"
    by (cases "fl (of_int tokens_used / 1000000)")
       (auto simp add: track_cost_def int_true_divide_def)
  have "float_ge (fl (of_int tokens_used / 1000000)) 0"
    using assms(1) by (intro fl_nonneg) simp
  with ratio have r: "0 \<le> ratio"
    by simp
  from assms(7) Some ratio obtain price
    where price: "fl (of_int (cost_per_1m_tokens model)) = Double price"
    by (cases "fl (of_int (cost_per_1m_tokens model))")
       (auto simp add: track_cost_def int_true_divide_def py_mul_def as_floats_def to_float_def)
  have "float_ge (fl (of_int (cost_per_1m_tokens model))) 0"
    using cost by (intro fl_nonneg) simp
  with price have p: "0 \<le> price"
    by simp
  define c where "c = fl (ratio * price)"
  have c: "float_ge c 0"
    unfolding c_def using r p by (intro fl_nonneg) simp
  from assms(7) Some ratio price obtain spent
    where spent: "to_float (budget_spent_today self) = Inr spent"
    by (cases "to_float (budget_spent_today self)")
       (auto simp add: track_cost_def int_true_divide_def py_mul_def py_add_def as_floats_def
          to_float_def split: number.splits)
  with Some ratio price have "track_cost self model_id tokens_used
      = Inr (self\<lparr>budget_spent_today := PyFloat (float_add spent c)\<rparr>)"
    unfolding c_def by (rule track_cost_known)
  with assms(7) have after: "budget_spent_today after = PyFloat (float_add spent c)"
    by auto
  show ?thesis
  proof (cases "budget_spent_today self")
    case (PyInt i)
    with assms(4) have i: "is_double (of_int i)"
      by simp
    with spent PyInt have "spent = Double (of_int i)"
      by (simp add: to_float_exact)
    with i c have "float_ge (float_add spent c) (of_int i)"
      by (simp add: float_add_not_below)
    with after PyInt show ?thesis
      by (cases "float_add spent c") simp_all
  next
    case (PyFloat x)
    with spent have same: "spent = x"
      by (simp add: to_float_def)
    show ?thesis
    proof (cases x)
      case (Double s)
      with assms(3) PyFloat have "is_double s"
        by (simp add: valid_number_def)
      then have "float_ge (float_add (Double s) c) s"
        using c by (rule float_add_not_below)
      with after PyFloat same Double show ?thesis
        by (cases "float_add (Double s) c") simp_all
    next
      case (Infinity positive)
      with assms(6) PyFloat have "positive"
        by simp
      with c after PyFloat same Infinity show ?thesis
        by (cases c) simp_all
    next
      case NaN
      with assms(5) PyFloat show ?thesis
        by simp
    qed
  qed
qed

text \<open>
  Claim C8, as stated, holds for every \<^verbatim>\<open>tokens_used\<close>. The method does not test the sign of
  its argument: a call for -1000000 tokens at cost 3, with nothing spent, leaves
  \<^verbatim>\<open>budget_spent_today\<close> at \<open>-3.0\<close>, which is less than 0.
\<close>

theorem track_cost_monotone_counterexample:
  "map_of (models x_router) ''x'' = Some model_x \<and>
   cost_per_1m_tokens model_x = 3 \<and>
   budget_spent_today x_router = PyInt 0 \<and>
   track_cost x_router ''x'' (- 1000000)
     = Inr (x_router\<lparr>budget_spent_today := PyFloat (Double (- 3))\<rparr>) \<and>
   \<not> py_ge (PyFloat (Double (- 3))) (PyInt 0)"
proof -
  have registered: "map_of (models x_router) ''x'' = Some model_x"
    by (simp add: x_router_def)
  have cost: "cost_per_1m_tokens model_x = 3"
    by (simp add: model_x_def)
  have spent: "budget_spent_today x_router = PyInt 0"
    by (simp add: x_router_def)
  have "track_cost x_router ''x'' (- 1000000)
          = Inr (x_router\<lparr>budget_spent_today :=
              PyFloat (float_add (Double 0) (fl (- 1 * 3)))\<rparr>)"
    using registered
  proof (rule track_cost_known)
    show "fl (of_int (- 1000000) / 1000000) = Double (- 1)"
      by (simp add: fl_minus fl_one)
    show "fl (of_int (cost_per_1m_tokens model_x)) = Double 3"
      by (simp add: cost fl_numeral)
    show "to_float (budget_spent_today x_router) = Inr (Double 0)"
      by (simp add: spent to_float_def fl_zero)
  qed
  then have "track_cost x_router ''x'' (- 1000000)
               = Inr (x_router\<lparr>budget_spent_today := PyFloat (Double (- 3))\<rparr>)"
    by (simp add: fl_minus fl_numeral)
  with registered cost spent show ?thesis
    by simp
qed

text \<open>
  Claim C8, amended. Let \<^verbatim>\<open>tokens_used >= 0\<close>, let the cost of the model under \<^verbatim>\<open>model_id\<close>,
  if there is one, be at least 0, and let \<^verbatim>\<open>budget_spent_today\<close> be an int that is a double,
  as the initial 0, or a float other than \<^verbatim>\<open>nan\<close> and \<^verbatim>\<open>-inf\<close>. Then every call of
  \<^verbatim>\<open>track_cost\<close> that returns leaves \<^verbatim>\<open>budget_spent_today\<close> greater than or equal to its
  value before the call. A call that does not return raises \<^verbatim>\<open>OverflowError\<close> and leaves the
  state as it was.
\<close>

theorem track_cost_monotone:
  assumes "0 \<le> tokens_used"
      and "\<forall>model. map_of (models self) model_id = Some model
             \<longrightarrow> 0 \<le> cost_per_1m_tokens model"
      and "valid_number (budget_spent_today self)"
      and "\<forall>i. budget_spent_today self = PyInt i \<longrightarrow> is_double (of_int i)"
      and "budget_spent_today self \<noteq> PyFloat NaN"
      and "budget_spent_today self \<noteq> PyFloat (Infinity False)"
  shows "(\<forall>after. track_cost self model_id tokens_used = Inr after \<longrightarrow>
            py_ge (budget_spent_today after) (budget_spent_today self)) \<and>
         (\<forall>e. track_cost self model_id tokens_used = Inl e \<longrightarrow> e = OverflowError)"
proof (intro conjI allI impI)
  fix after
  assume "track_cost self model_id tokens_used = Inr after"
  with assms show "py_ge (budget_spent_today after) (budget_spent_today self)"
    by (rule track_cost_not_below)
next
  fix e
  assume "track_cost self model_id tokens_used = Inl e"
  then show "e = OverflowError"
    by (rule track_cost_raises)
qed

theorem track_cost_monotone_witness:
  "(0 :: int) \<le> 1000000 \<and>
   map_of (models x_router) ''x'' = Some model_x \<and>
   0 \<le> cost_per_1m_tokens model_x \<and>
   budget_spent_today x_router = PyInt 0 \<and>
   is_double (of_int 0) \<and>
   track_cost x_router ''x'' 1000000
     = Inr (x_router\<lparr>budget_spent_today := PyFloat (Double 3)\<rparr>) \<and>
   py_ge (budget_spent_today (x_router\<lparr>budget_spent_today := PyFloat (Double 3)\<rparr>))
     (budget_spent_today x_router) \<and>
   valid_number (budget_spent_today large_router) \<and>
   track_cost large_router ''x'' 1000000
     = Inr (large_router\<lparr>budget_spent_today := PyFloat (Double 9007199254740996)\<rparr>) \<and>
   py_ge
     (budget_spent_today (large_router\<lparr>budget_spent_today := PyFloat (Double 9007199254740996)\<rparr>))
     (budget_spent_today large_router)"
proof -
  have registered: "map_of (models x_router) ''x'' = Some model_x"
    "map_of (models large_router) ''x'' = Some model_x"
    by (simp_all add: x_router_def large_router_def)
  have cost: "0 \<le> cost_per_1m_tokens model_x" "cost_per_1m_tokens model_x = 3"
    by (simp_all add: model_x_def)
  have costs: "\<forall>model. map_of (models x_router) ''x'' = Some model
                 \<longrightarrow> 0 \<le> cost_per_1m_tokens model"
    "\<forall>model. map_of (models large_router) ''x'' = Some model
                 \<longrightarrow> 0 \<le> cost_per_1m_tokens model"
    using registered cost by simp_all
  have spent: "budget_spent_today x_router = PyInt 0"
    by (simp add: x_router_def)
  have zero: "is_double (of_int 0)"
    using is_double_of_int [of 0] by simp
  have valid1: "valid_number (budget_spent_today x_router)"
    "\<forall>i. budget_spent_today x_router = PyInt i \<longrightarrow> is_double (of_int i)"
    "budget_spent_today x_router \<noteq> PyFloat NaN"
    "budget_spent_today x_router \<noteq> PyFloat (Infinity False)"
    using zero by (simp_all add: spent valid_number_def)
  have stored1: "track_cost x_router ''x'' 1000000
                   = Inr (x_router\<lparr>budget_spent_today := PyFloat (Double 3)\<rparr>)"
    using registered(1) cost(2)
    by (simp add: track_cost_def int_true_divide_def py_mul_def py_add_def as_floats_def
        to_float_def spent fl_one fl_numeral fl_zero)
  have tokens: "(0 :: int) \<le> 1000000"
    by simp
  from track_cost_monotone [OF tokens costs(1) valid1] stored1
  have grown1:
    "py_ge (budget_spent_today (x_router\<lparr>budget_spent_today := PyFloat (Double 3)\<rparr>))
       (budget_spent_today x_router)"
    by blast
  have spent2: "budget_spent_today large_router = PyFloat (Double 9007199254740992)"
    by (simp add: large_router_def)
  have valid2: "valid_number (budget_spent_today large_router)"
    "\<forall>i. budget_spent_today large_router = PyInt i \<longrightarrow> is_double (of_int i)"
    "budget_spent_today large_router \<noteq> PyFloat NaN"
    "budget_spent_today large_router \<noteq> PyFloat (Infinity False)"
    using is_double_pow53 by (simp_all add: spent2 valid_number_def)
  have stored2: "track_cost large_router ''x'' 1000000
      = Inr (large_router\<lparr>budget_spent_today := PyFloat (Double 9007199254740996)\<rparr>)"
    using registered(2) cost(2)
    by (simp add: track_cost_def int_true_divide_def py_mul_def py_add_def as_floats_def
        to_float_def spent2 fl_one fl_numeral fl_large_sum)
  from track_cost_monotone [OF tokens costs(2) valid2] stored2
  have grown2:
    "py_ge
       (budget_spent_today
          (large_router\<lparr>budget_spent_today := PyFloat (Double 9007199254740996)\<rparr>))
       (budget_spent_today large_router)"
    by blast
  from tokens registered cost spent zero stored1 grown1 valid2 stored2 grown2 show ?thesis
    by blast
qed

end
